theory Spec2Isabelle
  imports Main "HOL-Library.Word" "HOL-Library.Multiset" "HOL-Library.AList"
begin

unbundle bit_operations_syntax

section \<open>Python values and strings\<close>

text \<open>
  Strings are lists of characters. The model covers ASCII text: \<open>is_space\<close> is
  Python's \<^verbatim>\<open>str.isspace\<close> (and the regular expression class \<^verbatim>\<open>\s\<close>) on
  ASCII, \<open>is_word\<close> is \<^verbatim>\<open>\w\<close>, \<open>is_digit\<close> is \<^verbatim>\<open>\d\<close>, and \<open>lower\<close> is
  \<^verbatim>\<open>str.lower\<close>.
\<close>

definition is_space :: "char \<Rightarrow> bool" where
  "is_space c = (c \<in> set [CHR 0x20, CHR 0x09, CHR 0x0A, CHR 0x0B, CHR 0x0C, CHR 0x0D,
                            CHR 0x1C, CHR 0x1D, CHR 0x1E, CHR 0x1F])"

definition is_digit :: "char \<Rightarrow> bool" where
  "is_digit c = (48 \<le> (of_char c :: nat) \<and> (of_char c :: nat) \<le> 57)"

definition is_upper :: "char \<Rightarrow> bool" where
  "is_upper c = (65 \<le> (of_char c :: nat) \<and> (of_char c :: nat) \<le> 90)"

definition is_lower :: "char \<Rightarrow> bool" where
  "is_lower c = (97 \<le> (of_char c :: nat) \<and> (of_char c :: nat) \<le> 122)"

definition is_word :: "char \<Rightarrow> bool" where
  "is_word c = (is_digit c \<or> is_upper c \<or> is_lower c \<or> c = CHR ''_'')"

definition lower_char :: "char \<Rightarrow> char" where
  "lower_char c = (if is_upper c then char_of (of_char c + (32::nat)) else c)"

definition lower :: "string \<Rightarrow> string" where
  "lower s = map lower_char s"

definition strip :: "string \<Rightarrow> string" where
  "strip s = rev (dropWhile is_space (rev (dropWhile is_space s)))"

definition startswith :: "string \<Rightarrow> string \<Rightarrow> bool" where
  "startswith s p = (take (length p) s = p)"

text \<open>\<^verbatim>\<open>s[:n]\<close> for a Python integer \<open>n\<close>: a negative bound counts from the end.\<close>

definition slice_to :: "int \<Rightarrow> 'a list \<Rightarrow> 'a list" where
  "slice_to n s = (if 0 \<le> n then take (nat n) s else take (nat (int (length s) + n)) s)"

text \<open>\<^verbatim>\<open>s.rfind(c)\<close>: the highest index of \<open>c\<close> in \<open>s\<close>, or \<open>-1\<close>.\<close>

fun rfind :: "string \<Rightarrow> char \<Rightarrow> int" where
  "rfind [] c = -1"
| "rfind (x # xs) c =
     (let r = rfind xs c in if 0 \<le> r then r + 1 else if x = c then 0 else -1)"

text \<open>\<^verbatim>\<open>s.replace('Z', '+00:00')\<close>.\<close>

fun replace_Z :: "string \<Rightarrow> string" where
  "replace_Z [] = []"
| "replace_Z (c # cs) = (if c = CHR ''Z'' then ''+00:00'' @ replace_Z cs else c # replace_Z cs)"

text \<open>\<^verbatim>\<open>sub in s\<close> for strings.\<close>

fun contains :: "string \<Rightarrow> string \<Rightarrow> bool" where
  "contains [] sub = (sub = [])"
| "contains (c # cs) sub = (startswith (c # cs) sub \<or> contains cs sub)"

text \<open>\<^verbatim>\<open>int(x)\<close> on a string of decimal digits.\<close>

definition digit_val :: "char \<Rightarrow> int" where
  "digit_val c = int (of_char c) - 48"

definition int_of_digits :: "string \<Rightarrow> int" where
  "int_of_digits ds = foldl (\<lambda>acc c. 10 * acc + digit_val c) 0 ds"

text \<open>
  A \<^verbatim>\<open>datetime\<close> with its calendar fields. \<open>tzinfo\<close> is the UTC offset in seconds of an
  aware value, \<open>None\<close> for a naive one (what \<^verbatim>\<open>datetime.now()\<close> returns).
\<close>

record datetime =
  year :: int
  month :: int
  day :: int
  hour :: int
  minute :: int
  second :: int
  microsecond :: int
  tzinfo :: "int option"

text \<open>\<^verbatim>\<open>datetime(y, m, d, h, mi, tzinfo=tz)\<close>, seconds and microseconds 0.\<close>

definition mk_datetime :: "int \<Rightarrow> int \<Rightarrow> int \<Rightarrow> int \<Rightarrow> int \<Rightarrow> int option \<Rightarrow> datetime" where
  "mk_datetime y m d h mi tz =
     \<lparr>year = y, month = m, day = d, hour = h, minute = mi, second = 0, microsecond = 0,
      tzinfo = tz\<rparr>"

text \<open>The values a field of a post dictionary holds in this program.\<close>

datatype pyval = PNone | PStr string | PInt int | PDate datetime

datatype error = TypeError | AttributeError | ValueError | OverflowError

text \<open>Python's truth value of an object (\<^verbatim>\<open>if x:\<close>, \<^verbatim>\<open>not x\<close>, \<^verbatim>\<open>x or y\<close>).\<close>

fun truthy :: "pyval \<Rightarrow> bool" where
  "truthy PNone = False"
| "truthy (PStr s) = (s \<noteq> [])"
| "truthy (PInt n) = (n \<noteq> 0)"
| "truthy (PDate d) = True"

text \<open>
  A post is a \<^verbatim>\<open>dict\<close> from field names to values, kept as an association list in
  insertion order: \<^verbatim>\<open>d[k] = v\<close> is \<^const>\<open>AList.update\<close> (an existing key keeps its
  place, a new key goes to the end), \<^verbatim>\<open>d.get(k, default)\<close> is \<open>get_default\<close> and
  \<^verbatim>\<open>d.get(k)\<close> is \<open>get\<close>.
\<close>

type_synonym post = "(string \<times> pyval) list"

definition get_default :: "post \<Rightarrow> string \<Rightarrow> pyval \<Rightarrow> pyval" where
  "get_default d k dflt = (case map_of d k of None \<Rightarrow> dflt | Some v \<Rightarrow> v)"

definition get :: "post \<Rightarrow> string \<Rightarrow> pyval" where
  "get d k = get_default d k PNone"

section \<open>Calendar arithmetic of \<^verbatim>\<open>datetime\<close>\<close>

definition is_leap :: "int \<Rightarrow> bool" where
  "is_leap y = (y mod 4 = 0 \<and> (y mod 100 \<noteq> 0 \<or> y mod 400 = 0))"

definition days_in_month :: "int \<Rightarrow> int \<Rightarrow> int" where
  "days_in_month y m =
     (if m = 2 then (if is_leap y then 29 else 28)
      else if m = 4 \<or> m = 6 \<or> m = 9 \<or> m = 11 then 30 else 31)"

definition days_before_year :: "int \<Rightarrow> int" where
  "days_before_year y = (y - 1) * 365 + (y - 1) div 4 - (y - 1) div 100 + (y - 1) div 400"

definition days_before_month :: "int \<Rightarrow> int \<Rightarrow> int" where
  "days_before_month y m = (\<Sum>k \<leftarrow> [1 ..< nat m]. days_in_month y (int k))"

text \<open>The proleptic Gregorian ordinal of a date: 1 for 0001-01-01.\<close>

definition ymd2ord :: "int \<Rightarrow> int \<Rightarrow> int \<Rightarrow> int" where
  "ymd2ord y m d = days_before_year y + days_before_month y m + d"

text \<open>Microseconds of the wall clock since 0001-01-01T00:00:00.\<close>

definition to_micro :: "datetime \<Rightarrow> int" where
  "to_micro t =
     (((ymd2ord (year t) (month t) (day t) - 1) * 24 + hour t) * 3600
        + minute t * 60 + second t) * 1000000 + microsecond t"

text \<open>
  \<^verbatim>\<open>t.replace(hour=h)\<close>, \<^verbatim>\<open>t.replace(day=d)\<close> and \<^verbatim>\<open>t.replace(month=m)\<close>:
  the field is overwritten, and a value that is not a date or time raises
  \<^verbatim>\<open>ValueError\<close> (\<open>None\<close> here).
\<close>

definition replace_hour :: "datetime \<Rightarrow> int \<Rightarrow> datetime option" where
  "replace_hour t h = (if 0 \<le> h \<and> h \<le> 23 then Some (t\<lparr>hour := h\<rparr>) else None)"

definition replace_day :: "datetime \<Rightarrow> int \<Rightarrow> datetime option" where
  "replace_day t d =
     (if 1 \<le> d \<and> d \<le> days_in_month (year t) (month t) then Some (t\<lparr>day := d\<rparr>) else None)"

definition replace_month :: "datetime \<Rightarrow> int \<Rightarrow> datetime option" where
  "replace_month t m =
     (if 1 \<le> m \<and> m \<le> 12 \<and> day t \<le> days_in_month (year t) m
      then Some (t\<lparr>month := m\<rparr>) else None)"

section \<open>The MD5 digest (\<^verbatim>\<open>hashlib.md5(text.encode()).hexdigest()\<close>)\<close>

text \<open>RFC 1321, on the bytes of an ASCII string.\<close>

definition md5_K :: "32 word list" where
  "md5_K =
    [0xd76aa478, 0xe8c7b756, 0x242070db, 0xc1bdceee,
     0xf57c0faf, 0x4787c62a, 0xa8304613, 0xfd469501,
     0x698098d8, 0x8b44f7af, 0xffff5bb1, 0x895cd7be,
     0x6b901122, 0xfd987193, 0xa679438e, 0x49b40821,
     0xf61e2562, 0xc040b340, 0x265e5a51, 0xe9b6c7aa,
     0xd62f105d, 0x02441453, 0xd8a1e681, 0xe7d3fbc8,
     0x21e1cde6, 0xc33707d6, 0xf4d50d87, 0x455a14ed,
     0xa9e3e905, 0xfcefa3f8, 0x676f02d9, 0x8d2a4c8a,
     0xfffa3942, 0x8771f681, 0x6d9d6122, 0xfde5380c,
     0xa4beea44, 0x4bdecfa9, 0xf6bb4b60, 0xbebfbc70,
     0x289b7ec6, 0xeaa127fa, 0xd4ef3085, 0x04881d05,
     0xd9d4d039, 0xe6db99e5, 0x1fa27cf8, 0xc4ac5665,
     0xf4292244, 0x432aff97, 0xab9423a7, 0xfc93a039,
     0x655b59c3, 0x8f0ccc92, 0xffeff47d, 0x85845dd1,
     0x6fa87e4f, 0xfe2ce6e0, 0xa3014314, 0x4e0811a1,
     0xf7537e82, 0xbd3af235, 0x2ad7d2bb, 0xeb86d391]"

definition md5_S :: "nat list" where
  "md5_S =
    [7, 12, 17, 22, 7, 12, 17, 22, 7, 12, 17, 22, 7, 12, 17, 22,
     5, 9, 14, 20, 5, 9, 14, 20, 5, 9, 14, 20, 5, 9, 14, 20,
     4, 11, 16, 23, 4, 11, 16, 23, 4, 11, 16, 23, 4, 11, 16, 23,
     6, 10, 15, 21, 6, 10, 15, 21, 6, 10, 15, 21, 6, 10, 15, 21]"

definition rotl32 :: "32 word \<Rightarrow> nat \<Rightarrow> 32 word" where
  "rotl32 w n = push_bit n w OR drop_bit (32 - n) w"

type_synonym md5_state = "32 word \<times> 32 word \<times> 32 word \<times> 32 word"

definition md5_round :: "32 word list \<Rightarrow> md5_state \<Rightarrow> nat \<Rightarrow> md5_state" where
  "md5_round M st i =
     (case st of (a, b, c, d) \<Rightarrow>
        let f = (if i < 16 then (b AND c) OR (NOT b AND d)
                 else if i < 32 then (d AND b) OR (NOT d AND c)
                 else if i < 48 then b XOR c XOR d
                 else c XOR (b OR NOT d));
            g = (if i < 16 then i
                 else if i < 32 then (5 * i + 1) mod 16
                 else if i < 48 then (3 * i + 5) mod 16
                 else (7 * i) mod 16);
            f' = f + a + md5_K ! i + M ! g
        in (d, b + rotl32 f' (md5_S ! i), b, c))"

definition le_word :: "8 word list \<Rightarrow> 32 word" where
  "le_word bs = foldr (\<lambda>b w. push_bit 8 w OR ucast b) bs 0"

fun chunks :: "nat \<Rightarrow> 'a list \<Rightarrow> 'a list list" where
  "chunks n [] = []"
| "chunks n (x # xs) =
     (if n = 0 then [] else take n (x # xs) # chunks n (drop n (x # xs)))"

definition md5_block :: "md5_state \<Rightarrow> 8 word list \<Rightarrow> md5_state" where
  "md5_block st block =
     (let M = map le_word (chunks 4 block) in
      case st of (a0, b0, c0, d0) \<Rightarrow>
      case foldl (md5_round M) st [0 ..< 64] of (a, b, c, d) \<Rightarrow>
        (a0 + a, b0 + b, c0 + c, d0 + d))"

definition le_bytes :: "nat \<Rightarrow> int \<Rightarrow> 8 word list" where
  "le_bytes k n = map (\<lambda>i. word_of_int (n div 256 ^ i)) [0 ..< k]"

definition md5_pad :: "8 word list \<Rightarrow> 8 word list" where
  "md5_pad msg =
     (let n = int (length msg) in
      msg @ [0x80] @ replicate (nat ((55 - n) mod 64)) 0 @ le_bytes 8 ((8 * n) mod 2 ^ 64))"

definition md5_digest :: "8 word list \<Rightarrow> 8 word list" where
  "md5_digest msg =
     (case foldl md5_block (0x67452301, 0xefcdab89, 0x98badcfe, 0x10325476)
             (chunks 64 (md5_pad msg)) of
        (a, b, c, d) \<Rightarrow> concat (map (\<lambda>w. le_bytes 4 (uint w)) [a, b, c, d]))"

definition hex_digit :: "int \<Rightarrow> char" where
  "hex_digit n = ''0123456789abcdef'' ! nat (n mod 16)"

definition hex_byte :: "8 word \<Rightarrow> string" where
  "hex_byte b = [hex_digit (uint b div 16), hex_digit (uint b)]"

definition md5_hexdigest :: "string \<Rightarrow> string" where
  "md5_hexdigest s = concat (map hex_byte (md5_digest (map (\<lambda>c. word_of_int (of_char c)) s)))"

section \<open>Text normalizer (utils.py)\<close>

text \<open>\<^verbatim>\<open>re.sub(r'\s+', ' ', text)\<close>: every maximal run of whitespace becomes one space.\<close>

function collapse_ws :: "string \<Rightarrow> string" where
  "collapse_ws [] = []"
| "collapse_ws (c # cs) =
     (if is_space c then CHR '' '' # collapse_ws (dropWhile is_space cs)
      else c # collapse_ws cs)"
  by pat_completeness auto
termination
  by (relation "measure length") (auto simp: length_dropWhile_le less_Suc_eq_le)

definition normalize_text :: "string \<Rightarrow> string" where
  "normalize_text text = (if text = [] then [] else strip (collapse_ws text))"

text \<open>
  \<^verbatim>\<open>extract_text_snippet(text, max_length)\<close>. The source compares the integer
  \<^verbatim>\<open>last_space\<close> with the double \<^verbatim>\<open>max_length * 0.8\<close>; for every \<open>max_length\<close>
  below \<open>2^53\<close> in magnitude that comparison has the same outcome as the exact
  \<open>5 * last_space > 4 * max_length\<close> used here.
\<close>

definition extract_text_snippet :: "string \<Rightarrow> int \<Rightarrow> string" where
  "extract_text_snippet text max_length =
     (if text = [] then []
      else if int (length text) \<le> max_length then text
      else
        let snippet = slice_to max_length text;
            last_space = rfind snippet CHR '' ''
        in (if 5 * last_space > 4 * max_length then slice_to last_space snippet else snippet)
           @ ''...'')"

section \<open>Relevance scorer (utils.py)\<close>

text \<open>
  \<^verbatim>\<open>\b\<close> holds between two neighbouring characters exactly one of which is a word
  character; the two ends of the string count as non-word characters.
\<close>

definition is_word_opt :: "char option \<Rightarrow> bool" where
  "is_word_opt c = (case c of None \<Rightarrow> False | Some x \<Rightarrow> is_word x)"

definition boundary :: "char option \<Rightarrow> string \<Rightarrow> bool" where
  "boundary prev rest =
     (is_word_opt prev \<noteq> is_word_opt (case rest of [] \<Rightarrow> None | c # _ \<Rightarrow> Some c))"

text \<open>
  Whether \<^verbatim>\<open>\b\<close> + \<^verbatim>\<open>re.escape(kw)\<close> + \<^verbatim>\<open>\b\<close> matches at the front of \<open>s\<close>, the
  character before \<open>s\<close> being \<open>prev\<close>.
\<close>

definition match_here :: "string \<Rightarrow> char option \<Rightarrow> string \<Rightarrow> bool" where
  "match_here kw prev s =
     (boundary prev s \<and> startswith s kw
      \<and> boundary (if kw = [] then prev else Some (last kw)) (drop (length kw) s))"

text \<open>
  \<^verbatim>\<open>len(re.findall(pattern, text))\<close>: the matches are found from left to right and
  do not overlap; after an empty match the scan moves on by one character.
\<close>

function count_matches :: "string \<Rightarrow> char option \<Rightarrow> string \<Rightarrow> nat" where
  "count_matches kw prev s =
     (if match_here kw prev s then
        (if kw = [] then (case s of [] \<Rightarrow> 1 | c # cs \<Rightarrow> 1 + count_matches kw (Some c) cs)
         else 1 + count_matches kw (Some (last kw)) (drop (length kw) s))
      else (case s of [] \<Rightarrow> 0 | c # cs \<Rightarrow> count_matches kw (Some c) cs))"
  by pat_completeness auto
termination
  apply (relation "measure (\<lambda>(kw, prev, s). length s)")
     apply simp_all
  apply (case_tac s)
   apply (simp_all add: match_here_def startswith_def)
  done

declare count_matches.simps [simp del]

fun score_loop :: "string \<Rightarrow> string list \<Rightarrow> int \<Rightarrow> int" where
  "score_loop text_lower [] score = score"
| "score_loop text_lower (keyword # keywords) score =
     score_loop text_lower keywords
       (score + int (count_matches (lower keyword) None text_lower))"

definition calculate_relevance_score :: "string \<Rightarrow> string list \<Rightarrow> int" where
  "calculate_relevance_score text keywords =
     (if text = [] \<or> keywords = [] then 0 else score_loop (lower text) keywords 0)"

section \<open>Deduplicator (utils.py)\<close>

text \<open>
  The key of one post, as the loop body of \<^verbatim>\<open>deduplicate_posts\<close> resolves it.
  \<^verbatim>\<open>text.encode()\<close> on a value that is not a string raises \<^verbatim>\<open>AttributeError\<close>,
  and \<^verbatim>\<open>[:50]\<close> on \<^verbatim>\<open>None\<close>, an integer or a \<^verbatim>\<open>datetime\<close> raises \<^verbatim>\<open>TypeError\<close>.
\<close>

definition resolve_step2 :: "string \<Rightarrow> post \<Rightarrow> pyval \<Rightarrow> error + pyval" where
  "resolve_step2 key p post_key =
     (if \<not> truthy post_key \<and> key = ''post_url'' then
        (let text = get_default p ''text'' (PStr []) in
         if truthy text then
           (case text of PStr s \<Rightarrow> Inr (PStr (md5_hexdigest s)) | _ \<Rightarrow> Inl AttributeError)
         else Inr post_key)
      else Inr post_key)"

definition resolve_step3 :: "post \<Rightarrow> pyval \<Rightarrow> error + pyval" where
  "resolve_step3 p post_key =
     (if \<not> truthy post_key then
        (case get_default p ''text'' (PStr []) of
           PStr s \<Rightarrow>
             (let text = take 50 s in
              if text \<noteq> [] then Inr (PStr (md5_hexdigest text)) else Inr post_key)
         | _ \<Rightarrow> Inl TypeError)
      else Inr post_key)"

definition resolve_key :: "string \<Rightarrow> post \<Rightarrow> error + pyval" where
  "resolve_key key p =
     (case resolve_step2 key p (get p key) of
        Inl e \<Rightarrow> Inl e
      | Inr post_key \<Rightarrow> resolve_step3 p post_key)"

fun dedupe_loop ::
  "string \<Rightarrow> pyval set \<Rightarrow> post list \<Rightarrow> post list \<Rightarrow> error + post list" where
  "dedupe_loop key seen unique_posts [] = Inr unique_posts"
| "dedupe_loop key seen unique_posts (p # posts) =
     (case resolve_key key p of
        Inl e \<Rightarrow> Inl e
      | Inr post_key \<Rightarrow>
          if truthy post_key \<and> post_key \<notin> seen then
            dedupe_loop key (insert post_key seen) (unique_posts @ [p]) posts
          else if \<not> truthy post_key then
            dedupe_loop key seen (unique_posts @ [p]) posts
          else dedupe_loop key seen unique_posts posts)"

definition deduplicate_posts :: "post list \<Rightarrow> string \<Rightarrow> error + post list" where
  "deduplicate_posts posts key = dedupe_loop key {} [] posts"



text \<open>A post whose \<^verbatim>\<open>text\<close>, when present, is a string.\<close>

definition text_is_str :: "post \<Rightarrow> bool" where
  "text_is_str p = (case get_default p ''text'' (PStr []) of PStr s \<Rightarrow> True | _ \<Rightarrow> False)"

section \<open>Relative dates (parser.py)\<close>

text \<open>
  \<^verbatim>\<open>re.search(r'(\d+)\s*unit', text)\<close>: group 1 of the leftmost match. The digits
  and the whitespace are matched greedily, and giving characters back never helps
  (a digit or a space cannot start the unit word), so a match at a position exists
  exactly when the unit follows the longest run of digits and whitespace there.
\<close>

fun search_number :: "string \<Rightarrow> string \<Rightarrow> string option" where
  "search_number unit [] = None"
| "search_number unit (c # cs) =
     (if is_digit c \<and>
         startswith (dropWhile is_space (dropWhile is_digit (c # cs))) unit
      then Some (takeWhile is_digit (c # cs))
      else search_number unit cs)"

text \<open>
  The table of patterns of \<^verbatim>\<open>parse_relative_date\<close>, each with its function of the
  current time and the matched number.
\<close>

definition patterns :: "(string \<times> (datetime \<Rightarrow> int \<Rightarrow> datetime option)) list" where
  "patterns =
     [(''hour'', \<lambda>now x. replace_hour now (hour now - x)),
      (''day'', \<lambda>now x. replace_day now (day now - x)),
      (''week'', \<lambda>now x. replace_day now (day now - x * 7)),
      (''month'', \<lambda>now x. replace_month now (month now - x))]"

text \<open>
  The loop over the patterns: the first pattern that matches and whose function does
  not raise gives the result; an exception is swallowed and the loop goes on; after
  the loop the current time is returned.
\<close>

fun try_patterns ::
  "datetime \<Rightarrow> string \<Rightarrow> (string \<times> (datetime \<Rightarrow> int \<Rightarrow> datetime option)) list \<Rightarrow> datetime"
where
  "try_patterns now date_text [] = now"
| "try_patterns now date_text ((unit, func) # ps) =
     (case search_number unit date_text of
        None \<Rightarrow> try_patterns now date_text ps
      | Some ds \<Rightarrow>
          (case func now (int_of_digits ds) of
             Some r \<Rightarrow> r
           | None \<Rightarrow> try_patterns now date_text ps))"

definition parse_relative_date :: "datetime \<Rightarrow> string \<Rightarrow> datetime option" where
  "parse_relative_date now date_text =
     (if date_text = [] then None
      else Some (try_patterns now (strip (lower date_text)) patterns))"

section \<open>Date filter (main.py)\<close>

text \<open>
  \<^verbatim>\<open>datetime.now() - timedelta(days=days_limit)\<close>, as the microsecond count of the
  result. \<^verbatim>\<open>timedelta\<close> raises \<^verbatim>\<open>OverflowError\<close> beyond 999999999 days, and so does
  the subtraction when the result lies before year 1.
\<close>

definition cutoff_date :: "datetime \<Rightarrow> int \<Rightarrow> error + int" where
  "cutoff_date now days_limit =
     (if days_limit > 999999999 then Inl OverflowError
      else let c = to_micro now - days_limit * 86400000000
           in if c < 0 then Inl OverflowError else Inr c)"

text \<open>
  \<^verbatim>\<open>date >= cutoff_date\<close>, where the cutoff is naive: comparing an aware
  \<^verbatim>\<open>datetime\<close> with a naive one raises \<^verbatim>\<open>TypeError\<close>.
\<close>

definition datetime_ge :: "datetime \<Rightarrow> int \<Rightarrow> error + bool" where
  "datetime_ge t cutoff =
     (case tzinfo t of Some off \<Rightarrow> Inl TypeError | None \<Rightarrow> Inr (to_micro t \<ge> cutoff))"

text \<open>
  The parameter \<open>fromisoformat\<close> stands for \<^verbatim>\<open>datetime.fromisoformat\<close>, \<open>None\<close>
  being its \<^verbatim>\<open>ValueError\<close>.
\<close>

fun filter_loop ::
  "(string \<Rightarrow> datetime option) \<Rightarrow> int \<Rightarrow> post list \<Rightarrow> post list \<Rightarrow> error + post list"
where
  "filter_loop fromisoformat cutoff filtered [] = Inr filtered"
| "filter_loop fromisoformat cutoff filtered (p # posts) =
     (case get p ''date_posted'' of
        PDate date_posted \<Rightarrow>
          (case datetime_ge date_posted cutoff of
             Inl e \<Rightarrow> Inl e
           | Inr keep \<Rightarrow>
               filter_loop fromisoformat cutoff
                 (if keep then filtered @ [p] else filtered) posts)
      | PStr date_posted \<Rightarrow>
          (case fromisoformat (replace_Z date_posted) of
             None \<Rightarrow> filter_loop fromisoformat cutoff (filtered @ [p]) posts
           | Some date_obj \<Rightarrow>
               (case datetime_ge date_obj cutoff of
                  Inl e \<Rightarrow> filter_loop fromisoformat cutoff (filtered @ [p]) posts
                | Inr keep \<Rightarrow>
                    filter_loop fromisoformat cutoff
                      (if keep then filtered @ [p] else filtered) posts))
      | _ \<Rightarrow> filter_loop fromisoformat cutoff (filtered @ [p]) posts)"

definition filter_posts_by_date ::
  "datetime \<Rightarrow> (string \<Rightarrow> datetime option) \<Rightarrow> post list \<Rightarrow> int option \<Rightarrow> error + post list"
where
  "filter_posts_by_date now fromisoformat posts days_limit =
     (case days_limit of
        None \<Rightarrow> Inr posts
      | Some d \<Rightarrow>
          if d = 0 \<or> d \<le> 0 then Inr posts
          else (case cutoff_date now d of
                  Inl e \<Rightarrow> Inl e
                | Inr cutoff \<Rightarrow> filter_loop fromisoformat cutoff [] posts))"

section \<open>Scoring and ranking (main.py)\<close>

text \<open>
  \<^verbatim>\<open>calculate_relevance_score\<close> on the value that \<^verbatim>\<open>post.get('text', '')\<close> returns:
  a false value or an empty keyword list gives 0 before the text is touched;
  \<^verbatim>\<open>text.lower()\<close> on a value that is not a string raises \<^verbatim>\<open>AttributeError\<close>.
\<close>

definition score_value :: "pyval \<Rightarrow> string list \<Rightarrow> error + int" where
  "score_value text keywords =
     (if \<not> truthy text \<or> keywords = [] then Inr 0
      else (case text of
              PStr s \<Rightarrow> Inr (calculate_relevance_score s keywords)
            | _ \<Rightarrow> Inl AttributeError))"

fun score_posts :: "post list \<Rightarrow> string list \<Rightarrow> error + post list" where
  "score_posts [] keywords = Inr []"
| "score_posts (p # posts) keywords =
     (case score_value (get_default p ''text'' (PStr [])) keywords of
        Inl e \<Rightarrow> Inl e
      | Inr score \<Rightarrow>
          (case score_posts posts keywords of
             Inl e \<Rightarrow> Inl e
           | Inr rest \<Rightarrow> Inr (AList.update ''score'' (PInt score) p # rest)))"

text \<open>The sort key \<^verbatim>\<open>x.get('score', 0)\<close>; after the loop it is an integer on every post.\<close>

definition score_of :: "post \<Rightarrow> int" where
  "score_of p = (case get_default p ''score'' (PInt 0) of PInt n \<Rightarrow> n | _ \<Rightarrow> 0)"

text \<open>
  \<^verbatim>\<open>posts.sort(key=..., reverse=True)\<close>: Python's sort is stable, also with
  \<^verbatim>\<open>reverse=True\<close>. It is modelled by an insertion sort into descending order that
  places an element behind the elements of equal key.
\<close>

fun insert_desc :: "post \<Rightarrow> post list \<Rightarrow> post list" where
  "insert_desc x [] = [x]"
| "insert_desc x (y # ys) =
     (if score_of y < score_of x then x # y # ys else y # insert_desc x ys)"

definition sort_desc :: "post list \<Rightarrow> post list" where
  "sort_desc posts = foldl (\<lambda>acc x. insert_desc x acc) [] posts"

definition score_and_rank_posts :: "post list \<Rightarrow> string list \<Rightarrow> error + post list" where
  "score_and_rank_posts posts keywords =
     (case score_posts posts keywords of
        Inl e \<Rightarrow> Inl e
      | Inr scored \<Rightarrow> Inr (sort_desc scored))"

section \<open>Record cleaner (parser.py)\<close>

text \<open>
  \<^verbatim>\<open>normalize_text\<close> and \<^verbatim>\<open>extract_text_snippet\<close> on an arbitrary value: a false
  value gives the empty string, and a true value that is not a string raises
  \<^verbatim>\<open>TypeError\<close> (in \<^verbatim>\<open>re.sub\<close>, in \<^verbatim>\<open>len\<close>).
\<close>

definition normalize_value :: "pyval \<Rightarrow> error + string" where
  "normalize_value v =
     (if \<not> truthy v then Inr []
      else (case v of PStr s \<Rightarrow> Inr (normalize_text s) | _ \<Rightarrow> Inl TypeError))"

definition snippet_value :: "pyval \<Rightarrow> error + string" where
  "snippet_value v =
     (if \<not> truthy v then Inr []
      else (case v of PStr s \<Rightarrow> Inr (extract_text_snippet s 200) | _ \<Rightarrow> Inl TypeError))"

text \<open>
  Dictionaries are objects: the store is the list of the dictionaries allocated so
  far and a reference is an index into it. \<^verbatim>\<open>d[k] = v\<close> on the object at address
  \<open>a\<close> is \<open>store\<close>.
\<close>

type_synonym heap = "post list"

definition store :: "heap \<Rightarrow> nat \<Rightarrow> string \<Rightarrow> pyval \<Rightarrow> heap" where
  "store h a k v = h[a := AList.update k v (h ! a)]"

definition clean_text :: "heap \<Rightarrow> nat \<Rightarrow> heap \<times> (error + unit)" where
  "clean_text h cleaned =
     (case map_of (h ! cleaned) ''text'' of
        None \<Rightarrow> (h, Inr ())
      | Some v \<Rightarrow>
          (case normalize_value v of
             Inl e \<Rightarrow> (h, Inl e)
           | Inr t \<Rightarrow>
               (let h1 = store h cleaned ''text'' (PStr t) in
                case snippet_value (get (h1 ! cleaned) ''text'') of
                  Inl e \<Rightarrow> (h1, Inl e)
                | Inr sn \<Rightarrow> (store h1 cleaned ''text_snippet'' (PStr sn), Inr ()))))"

definition clean_url :: "string \<Rightarrow> heap \<Rightarrow> nat \<Rightarrow> heap \<times> (error + unit)" where
  "clean_url k h cleaned =
     (case map_of (h ! cleaned) k of
        None \<Rightarrow> (h, Inr ())
      | Some v \<Rightarrow>
          if truthy v then
            (case v of
               PStr s \<Rightarrow>
                 if \<not> startswith s ''http''
                 then (store h cleaned k (PStr (''https://www.linkedin.com'' @ s)), Inr ())
                 else (h, Inr ())
             | _ \<Rightarrow> (h, Inl AttributeError))
          else (h, Inr ()))"

definition clean_date ::
  "datetime \<Rightarrow> (string \<Rightarrow> datetime option) \<Rightarrow> heap \<Rightarrow> nat \<Rightarrow> heap" where
  "clean_date now fromisoformat h cleaned =
     (case map_of (h ! cleaned) ''date_posted'' of
        Some (PStr s) \<Rightarrow>
          store h cleaned ''date_posted''
            (PDate (case fromisoformat s of Some t \<Rightarrow> t | None \<Rightarrow> now))
      | _ \<Rightarrow> h)"

text \<open>
  \<^verbatim>\<open>clean_post_data(post)\<close>, \<open>post\<close> being a reference into the store. The result is
  the store after the call and the reference returned (or the exception raised).
\<close>

definition clean_post_data ::
  "datetime \<Rightarrow> (string \<Rightarrow> datetime option) \<Rightarrow> heap \<Rightarrow> nat \<Rightarrow> heap \<times> (error + nat)" where
  "clean_post_data now fromisoformat h p =
     (let cleaned = length h; h0 = h @ [h ! p] in
      case clean_text h0 cleaned of
        (h1, Inl e) \<Rightarrow> (h1, Inl e)
      | (h1, Inr _) \<Rightarrow>
      (case clean_url ''post_url'' h1 cleaned of
        (h2, Inl e) \<Rightarrow> (h2, Inl e)
      | (h2, Inr _) \<Rightarrow>
      (case clean_url ''author_url'' h2 cleaned of
        (h3, Inl e) \<Rightarrow> (h3, Inl e)
      | (h3, Inr _) \<Rightarrow> (clean_date now fromisoformat h3 cleaned, Inr cleaned))))"

text \<open>The dictionary a call returns for a dictionary given by value.\<close>

definition clean_value ::
  "datetime \<Rightarrow> (string \<Rightarrow> datetime option) \<Rightarrow> post \<Rightarrow> error + post" where
  "clean_value now fromisoformat d =
     (case clean_post_data now fromisoformat [d] 0 of
        (h, Inl e) \<Rightarrow> Inl e
      | (h, Inr c) \<Rightarrow> Inr (h ! c))"

text \<open>The fields of a post hold the types the data model gives them.\<close>

definition str_or_none :: "pyval option \<Rightarrow> bool" where
  "str_or_none v = (case v of None \<Rightarrow> True | Some PNone \<Rightarrow> True | Some (PStr s) \<Rightarrow> True
                    | _ \<Rightarrow> False)"

definition well_typed :: "post \<Rightarrow> bool" where
  "well_typed d =
     (str_or_none (map_of d ''text'') \<and> str_or_none (map_of d ''post_url'')
      \<and> str_or_none (map_of d ''author_url''))"

section \<open>Raw extraction adapters (parser.py, scraper.py)\<close>

text \<open>\<^verbatim>\<open>re.findall(r'\d+', s)\<close>, first element, if any.\<close>

definition first_number :: "string \<Rightarrow> string option" where
  "first_number s =
     (case dropWhile (\<lambda>c. \<not> is_digit c) s of [] \<Rightarrow> None | r \<Rightarrow> Some (takeWhile is_digit r))"

text \<open>
  A markup node is given by what its lookups return: \<open>bs_post_link\<close> is the
  \<^verbatim>\<open>href\<close> of the first anchor whose \<^verbatim>\<open>href\<close> matches \<^verbatim>\<open>/posts/\<close>,
  \<open>bs_author_link\<close> the \<^verbatim>\<open>href\<close> (or \<^verbatim>\<open>''\<close>) and the text of the first anchor
  matching \<^verbatim>\<open>/in/\<close>, the three text fields the text of the three candidate
  elements, \<open>bs_time\<close> the \<^verbatim>\<open>datetime\<close> attribute and the text of the \<^verbatim>\<open>time\<close>
  element, and the last two the first string matching \<^verbatim>\<open>like\<close> and \<^verbatim>\<open>comment\<close>.
\<close>

record soup_node =
  bs_post_link :: "string option"
  bs_author_link :: "(string \<times> string) option"
  bs_description :: "string option"
  bs_ltr_span :: "string option"
  bs_text_div :: "string option"
  bs_time :: "(string option \<times> string) option"
  bs_like_string :: "string option"
  bs_comment_string :: "string option"

datatype raw_unit = Mapping post | Node soup_node | Other

definition absolute_url :: "string \<Rightarrow> string \<Rightarrow> string" where
  "absolute_url base_url href = (if startswith href ''http'' then href else base_url @ href)"

definition extract_engagement :: "string option \<Rightarrow> int" where
  "extract_engagement found =
     (case found of
        None \<Rightarrow> 0
      | Some s \<Rightarrow> (case first_number s of None \<Rightarrow> 0 | Some ds \<Rightarrow> int_of_digits ds))"

definition bs_date ::
  "datetime \<Rightarrow> (string \<Rightarrow> datetime option) \<Rightarrow> (string option \<times> string) option
     \<Rightarrow> datetime option" where
  "bs_date now fromisoformat date_elem =
     (case date_elem of
        None \<Rightarrow> None
      | Some (datetime_attr, date_text) \<Rightarrow>
          (case datetime_attr of
             Some a \<Rightarrow> if a \<noteq> [] then fromisoformat (replace_Z a)
                       else parse_relative_date now date_text
           | None \<Rightarrow> parse_relative_date now date_text))"

text \<open>
  The permalink and the body text that \<^verbatim>\<open>parse_post_element\<close> finds in a markup
  node.
\<close>

definition bs_post_url :: "soup_node \<Rightarrow> string \<Rightarrow> string option" where
  "bs_post_url n base_url =
     (case bs_post_link n of
        Some href \<Rightarrow> if href \<noteq> [] then Some (absolute_url base_url href) else None
      | None \<Rightarrow> None)"

definition bs_text :: "soup_node \<Rightarrow> string" where
  "bs_text n =
     (case (case bs_description n of
              Some t \<Rightarrow> Some t
            | None \<Rightarrow> (case bs_ltr_span n of Some t \<Rightarrow> Some t | None \<Rightarrow> bs_text_div n)) of
        Some t \<Rightarrow> normalize_text t
      | None \<Rightarrow> [])"

definition parse_post_element ::
  "datetime \<Rightarrow> (string \<Rightarrow> datetime option) \<Rightarrow> raw_unit \<Rightarrow> string \<Rightarrow> post option" where
  "parse_post_element now fromisoformat element base_url =
     (case element of
        Mapping d \<Rightarrow> Some d
      | Other \<Rightarrow> None
      | Node n \<Rightarrow>
          (let post_url = bs_post_url n base_url;
               author_url = map_option (\<lambda>(href, t). absolute_url base_url href) (bs_author_link n);
               author_name = map_option (\<lambda>(href, t). normalize_text t) (bs_author_link n);
               text = bs_text n;
               date_posted = bs_date now fromisoformat (bs_time n);
               likes = extract_engagement (bs_like_string n);
               comments = extract_engagement (bs_comment_string n)
           in if (case post_url of None \<Rightarrow> True | Some u \<Rightarrow> u = []) \<or> text = [] then None
              else Some
                [(''post_url'', PStr (case post_url of Some u \<Rightarrow> u | None \<Rightarrow> [])),
                 (''author_url'', PStr (case author_url of Some u \<Rightarrow> u | None \<Rightarrow> [])),
                 (''author_name'',
                    PStr (case author_name of
                            Some a \<Rightarrow> if a \<noteq> [] then a else ''Unknown''
                          | None \<Rightarrow> ''Unknown'')),
                 (''text'', PStr text),
                 (''text_snippet'', PStr (extract_text_snippet text 200)),
                 (''date_posted'', PDate (case date_posted of Some t \<Rightarrow> t | None \<Rightarrow> now)),
                 (''likes'', PInt likes),
                 (''comments'', PInt comments)]))"

text \<open>
  The element handle of the browser driver, again by what its queries return:
  \<open>pw_post_link\<close> is the \<^verbatim>\<open>href\<close> of the first \<^verbatim>\<open>a[href*="/posts/"]\<close>,
  \<open>pw_author_link\<close> the \<^verbatim>\<open>href\<close> and inner text of the first
  \<^verbatim>\<open>a[href*="/in/"]\<close>, \<open>pw_texts\<close> the inner text of the element each of the three
  text selectors finds, \<open>pw_time\<close> the \<^verbatim>\<open>datetime\<close> attribute and inner text of
  the \<^verbatim>\<open>time\<close> element, \<open>pw_any_link\<close> the \<^verbatim>\<open>href\<close> of the first anchor, and
  \<open>pw_inner_text\<close> the inner text of the element itself (\<open>None\<close> when reading it
  raises).
\<close>

record pw_node =
  pw_post_link :: "string option"
  pw_author_link :: "(string option \<times> string) option"
  pw_texts :: "string option list"
  pw_time :: "(string option \<times> string) option"
  pw_likes :: "string option"
  pw_comments :: "string option"
  pw_any_link :: "string option"
  pw_inner_text :: "string option"

fun text_loop :: "string \<Rightarrow> string option list \<Rightarrow> string" where
  "text_loop text [] = text"
| "text_loop text (None # sels) = text_loop text sels"
| "text_loop text (Some t # sels) = (if t \<noteq> [] then t else text_loop t sels)"

definition pw_date ::
  "datetime \<Rightarrow> (string \<Rightarrow> datetime option) \<Rightarrow> (string option \<times> string) option
     \<Rightarrow> datetime option" where
  "pw_date now fromisoformat time_elem =
     (case time_elem of
        None \<Rightarrow> None
      | Some (datetime_attr, date_text) \<Rightarrow>
          (let date_posted =
                 (case datetime_attr of
                    Some a \<Rightarrow> if a \<noteq> [] then fromisoformat (replace_Z a) else None
                  | None \<Rightarrow> None)
           in case date_posted of
                Some t \<Rightarrow> Some t
              | None \<Rightarrow> if date_text \<noteq> [] then parse_relative_date now date_text else None))"

definition pw_engagement :: "string option \<Rightarrow> int" where
  "pw_engagement elem_text =
     (case elem_text of
        None \<Rightarrow> 0
      | Some t \<Rightarrow>
          if t \<noteq> [] then
            (case first_number (filter (\<lambda>c. c \<noteq> CHR '','') t) of
               None \<Rightarrow> 0
             | Some ds \<Rightarrow> int_of_digits ds)
          else 0)"

text \<open>
  The permalink after both lookups (the \<^verbatim>\<open>/posts/\<close> anchor, then any anchor whose
  \<^verbatim>\<open>href\<close> contains \<^verbatim>\<open>/posts/\<close>), and the text after the selector loop and
  the fall-back to the element's own inner text.
\<close>

definition pw_post_url :: "pw_node \<Rightarrow> string option" where
  "pw_post_url element =
     (let post_url =
            (case pw_post_link element of
               Some href \<Rightarrow>
                 if href \<noteq> [] then Some (absolute_url ''https://www.linkedin.com'' href)
                 else None
             | None \<Rightarrow> None)
      in case post_url of
           Some u \<Rightarrow> Some u
         | None \<Rightarrow>
             (case pw_any_link element of
                Some href \<Rightarrow>
                  if href \<noteq> [] \<and> contains href ''/posts/''
                  then Some (absolute_url ''https://www.linkedin.com'' href)
                  else None
              | None \<Rightarrow> None))"

definition pw_text :: "pw_node \<Rightarrow> string" where
  "pw_text element =
     (let text = text_loop [] (pw_texts element)
      in if text = [] then
           (case pw_inner_text element of Some t \<Rightarrow> strip t | None \<Rightarrow> text)
         else text)"

text \<open>The dictionary \<^verbatim>\<open>post_data\<close> that is built once the permalink is settled.\<close>

definition pw_post_data ::
  "datetime \<Rightarrow> (string \<Rightarrow> datetime option) \<Rightarrow> pw_node \<Rightarrow> string \<Rightarrow> string \<Rightarrow> post" where
  "pw_post_data now fromisoformat element post_url text =
     (let author =
            (case pw_author_link element of
               Some (Some href, name) \<Rightarrow>
                 if href \<noteq> []
                 then Some (absolute_url ''https://www.linkedin.com'' href, strip name)
                 else None
             | _ \<Rightarrow> None);
          date_posted = pw_date now fromisoformat (pw_time element);
          likes = pw_engagement (pw_likes element);
          comments = pw_engagement (pw_comments element)
      in [(''post_url'', PStr post_url),
          (''author_url'', PStr (case author of Some (u, a) \<Rightarrow> u | None \<Rightarrow> [])),
          (''author_name'',
             PStr (case author of
                     Some (u, a) \<Rightarrow> if a \<noteq> [] then a else ''Unknown''
                   | None \<Rightarrow> ''Unknown'')),
          (''text'', PStr (strip text)),
          (''date_posted'', PDate (case date_posted of Some t \<Rightarrow> t | None \<Rightarrow> now)),
          (''likes'', PInt likes),
          (''comments'', PInt comments)])"

definition extract_single_post ::
  "datetime \<Rightarrow> (string \<Rightarrow> datetime option) \<Rightarrow> pw_node \<Rightarrow> post option" where
  "extract_single_post now fromisoformat element =
     (let post_url1 = pw_post_url element;
          text = pw_text element
      in if (case post_url1 of None \<Rightarrow> True | Some u \<Rightarrow> u = []) \<and> text = [] then None
         else
           (let post_url =
                  (case post_url1 of
                     Some u \<Rightarrow>
                       if u \<noteq> [] then u
                       else ''https://www.linkedin.com/feed/post/'' @ take 12 (md5_hexdigest text)
                   | None \<Rightarrow>
                       ''https://www.linkedin.com/feed/post/'' @ take 12 (md5_hexdigest text));
                post_data = pw_post_data now fromisoformat element post_url text
            in case clean_value now fromisoformat post_data of
                 Inl e \<Rightarrow> Some post_data
               | Inr cleaned \<Rightarrow> Some cleaned))"

section \<open>Definitions for stating the properties\<close>

text \<open>
  The snippet as the specification words it: the cut moves to the last space when that
  space lies at or beyond 80 percent of \<open>max_length\<close>.
\<close>

definition spec_extract_text_snippet :: "string \<Rightarrow> int \<Rightarrow> string" where
  "spec_extract_text_snippet text max_length =
     (if int (length text) \<le> max_length then text
      else
        let snippet = slice_to max_length text;
            last_space = rfind snippet CHR '' ''
        in (if 5 * last_space \<ge> 4 * max_length then slice_to last_space snippet else snippet)
           @ ''...'')"

text \<open>The date filter's decision on one post, given the cutoff.\<close>

definition keeps :: "(string \<Rightarrow> datetime option) \<Rightarrow> int \<Rightarrow> post \<Rightarrow> bool" where
  "keeps fromisoformat cutoff p =
     (case get p ''date_posted'' of
        PDate t \<Rightarrow> cutoff \<le> to_micro t
      | PStr s \<Rightarrow>
          (case fromisoformat (replace_Z s) of
             None \<Rightarrow> True
           | Some t \<Rightarrow> tzinfo t \<noteq> None \<or> cutoff \<le> to_micro t)
      | _ \<Rightarrow> True)"

text \<open>A post whose \<^verbatim>\<open>date_posted\<close>, when it is a \<^verbatim>\<open>datetime\<close>, is naive.\<close>

definition naive_date :: "post \<Rightarrow> bool" where
  "naive_date p = (case get p ''date_posted'' of PDate t \<Rightarrow> tzinfo t = None | _ \<Rightarrow> True)"

text \<open>
  The text of a post as a string, the posts on which scoring does not raise (the text
  is a string or a false value), and the post with the score of its text set.
\<close>

definition text_of :: "post \<Rightarrow> string" where
  "text_of p = (case get_default p ''text'' (PStr []) of PStr s \<Rightarrow> s | _ \<Rightarrow> [])"

definition text_scorable :: "post \<Rightarrow> bool" where
  "text_scorable p =
     (case get_default p ''text'' (PStr []) of PStr s \<Rightarrow> True | v \<Rightarrow> \<not> truthy v)"

definition with_score :: "string list \<Rightarrow> post \<Rightarrow> post" where
  "with_score keywords p =
     AList.update ''score'' (PInt (calculate_relevance_score (text_of p) keywords)) p"

text \<open>
  Text in which every whitespace character is a single space standing alone: what
  \<^verbatim>\<open>re.sub(r'\s+', ' ', text)\<close> produces.
\<close>

fun single_spaced :: "string \<Rightarrow> bool" where
  "single_spaced [] = True"
| "single_spaced [c] = (is_space c \<longrightarrow> c = CHR '' '')"
| "single_spaced (c # d # cs) =
     ((is_space c \<longrightarrow> c = CHR '' '' \<and> \<not> is_space d) \<and> single_spaced (d # cs))"

text \<open>
  The steps of \<^verbatim>\<open>clean_post_data\<close> read on the dictionary alone, and their
  composition: the dictionary that a call builds from the one it is given.
\<close>

definition text_step :: "post \<Rightarrow> error + post" where
  "text_step d =
     (case map_of d ''text'' of
        None \<Rightarrow> Inr d
      | Some v \<Rightarrow>
          (case normalize_value v of
             Inl e \<Rightarrow> Inl e
           | Inr t \<Rightarrow>
               Inr (AList.update ''text_snippet'' (PStr (extract_text_snippet t 200))
                      (AList.update ''text'' (PStr t) d))))"

definition url_step :: "string \<Rightarrow> post \<Rightarrow> error + post" where
  "url_step k d =
     (case map_of d k of
        None \<Rightarrow> Inr d
      | Some v \<Rightarrow>
          if truthy v then
            (case v of
               PStr s \<Rightarrow>
                 if \<not> startswith s ''http''
                 then Inr (AList.update k (PStr (''https://www.linkedin.com'' @ s)) d)
                 else Inr d
             | _ \<Rightarrow> Inl AttributeError)
          else Inr d)"

definition date_step :: "datetime \<Rightarrow> (string \<Rightarrow> datetime option) \<Rightarrow> post \<Rightarrow> post" where
  "date_step now fromisoformat d =
     (case map_of d ''date_posted'' of
        Some (PStr s) \<Rightarrow>
          AList.update ''date_posted''
            (PDate (case fromisoformat s of Some t \<Rightarrow> t | None \<Rightarrow> now)) d
      | _ \<Rightarrow> d)"

definition clean_dict ::
  "datetime \<Rightarrow> (string \<Rightarrow> datetime option) \<Rightarrow> post \<Rightarrow> error + post" where
  "clean_dict now fromisoformat d =
     (case text_step d of
        Inl e \<Rightarrow> Inl e
      | Inr d1 \<Rightarrow>
      (case url_step ''post_url'' d1 of
        Inl e \<Rightarrow> Inl e
      | Inr d2 \<Rightarrow>
      (case url_step ''author_url'' d2 of
        Inl e \<Rightarrow> Inl e
      | Inr d3 \<Rightarrow> Inr (date_step now fromisoformat d3))))"

text \<open>What the steps establish: the fields of a cleaned record.\<close>

definition text_clean :: "post \<Rightarrow> bool" where
  "text_clean d =
     (case map_of d ''text'' of
        None \<Rightarrow> True
      | Some v \<Rightarrow>
          (case v of
             PStr t \<Rightarrow> normalize_text t = t
                       \<and> map_of d ''text_snippet'' = Some (PStr (extract_text_snippet t 200))
           | _ \<Rightarrow> False))"

definition url_clean :: "string \<Rightarrow> post \<Rightarrow> bool" where
  "url_clean k d =
     (case map_of d k of
        None \<Rightarrow> True
      | Some v \<Rightarrow> (case v of PStr s \<Rightarrow> s = [] \<or> startswith s ''http'' | _ \<Rightarrow> \<not> truthy v))"

definition date_clean :: "post \<Rightarrow> bool" where
  "date_clean d = (case map_of d ''date_posted'' of Some (PStr s) \<Rightarrow> False | _ \<Rightarrow> True)"

section \<open>Verification\<close>

subsection \<open>Snippets\<close>

lemma rfind_bounds: "- 1 \<le> rfind s c \<and> rfind s c < int (length s)"
  by (induction s) (auto simp: Let_def)

lemma rfind_hit: "0 \<le> rfind s c \<Longrightarrow> s ! nat (rfind s c) = c"
proof (induction s)
  case Nil
  then show ?case by simp
next
  case (Cons x xs)
  show ?case
  proof (cases "0 \<le> rfind xs c")
    case True
    then have "nat (rfind xs c + 1) = Suc (nat (rfind xs c))" by simp
    with True Cons.IH show ?thesis by (simp add: Let_def)
  next
    case False
    with Cons.prems show ?thesis by (auto simp: Let_def split: if_splits)
  qed
qed

lemma rfind_last: "rfind s c < int j \<Longrightarrow> j < length s \<Longrightarrow> s ! j \<noteq> c"
proof (induction s arbitrary: j)
  case Nil
  then show ?case by simp
next
  case (Cons x xs)
  show ?case
  proof (cases j)
    case 0
    with Cons.prems show ?thesis by (auto simp: Let_def split: if_splits)
  next
    case (Suc k)
    with Cons.prems have "rfind xs c < int k" "k < length xs"
      by (auto simp: Let_def split: if_splits)
    with Cons.IH Suc show ?thesis by simp
  qed
qed

lemma rfind_none: "rfind s c = - 1 \<longleftrightarrow> c \<notin> set s"
proof (induction s)
  case Nil
  then show ?case by simp
next
  case (Cons x xs)
  have "- 1 \<le> rfind xs c" by (simp add: rfind_bounds)
  with Cons show ?case by (auto simp: Let_def)
qed

text \<open>
  C4 (amended). For \<open>max_length \<ge> 0\<close>: the empty text gives the empty string; a text
  of at most \<open>max_length\<close> characters is returned unchanged; a longer text is cut to
  its first \<open>max_length\<close> characters, the cut moves back to the last space among
  them exactly when that space lies strictly beyond 80 percent of \<open>max_length\<close>, and
  \<^verbatim>\<open>...\<close> is appended, so the result has at most \<open>max_length + 3\<close> characters.
\<close>

theorem extract_text_snippet_truncates:
  assumes "0 \<le> m"
  shows "extract_text_snippet [] m = []
    \<and> (int (length T) \<le> m \<longrightarrow> extract_text_snippet T m = T)
    \<and> (m < int (length T) \<longrightarrow>
         (let last_space = rfind (take (nat m) T) CHR '' '' in
          extract_text_snippet T m =
            (if 4 * m < 5 * last_space then take (nat last_space) T else take (nat m) T) @ ''...''
          \<and> (4 * m < 5 * last_space \<longrightarrow> T ! nat last_space = CHR '' '')
          \<and> (\<forall>j. last_space < int j \<and> int j < m \<longrightarrow> T ! j \<noteq> CHR '' '')
          \<and> int (length (extract_text_snippet T m)) \<le> m + 3))"
proof -
  let ?s = "take (nat m) T"
  let ?l = "rfind ?s CHR '' ''"
  have b: "- 1 \<le> ?l" "?l < int (length ?s)" using rfind_bounds[of ?s "CHR '' ''"] by auto
  have e: "extract_text_snippet [] m = []" by (simp add: extract_text_snippet_def)
  have s: "int (length T) \<le> m \<longrightarrow> extract_text_snippet T m = T"
    by (simp add: extract_text_snippet_def)
  have t: "extract_text_snippet T m =
            (if 4 * m < 5 * ?l then take (nat ?l) T else ?s) @ ''...''"
    and h: "4 * m < 5 * ?l \<longrightarrow> T ! nat ?l = CHR '' ''"
    and n: "\<forall>j. ?l < int j \<and> int j < m \<longrightarrow> T ! j \<noteq> CHR '' ''"
    and len: "int (length (extract_text_snippet T m)) \<le> m + 3"
    if lt: "m < int (length T)"
  proof -
    from lt assms have ne: "T \<noteq> []" by auto
    from lt assms have ls: "int (length ?s) = m" by simp
    show t: "extract_text_snippet T m =
            (if 4 * m < 5 * ?l then take (nat ?l) T else ?s) @ ''...''"
    proof (cases "4 * m < 5 * ?l")
      case True
      with assms have "0 \<le> ?l" by linarith
      moreover from b ls have "nat ?l \<le> nat m" by linarith
      ultimately have "slice_to ?l ?s = take (nat ?l) T"
        by (simp add: slice_to_def min_def)
      with True ne lt assms show ?thesis
        by (simp add: extract_text_snippet_def Let_def slice_to_def)
    next
      case False
      with ne lt assms show ?thesis
        by (simp add: extract_text_snippet_def Let_def slice_to_def)
    qed
    show "4 * m < 5 * ?l \<longrightarrow> T ! nat ?l = CHR '' ''"
    proof
      assume a: "4 * m < 5 * ?l"
      with assms have p: "0 \<le> ?l" by linarith
      from b ls have "nat ?l < nat m" using p by linarith
      then have "?s ! nat ?l = T ! nat ?l" by simp
      with rfind_hit[OF p] show "T ! nat ?l = CHR '' ''" by simp
    qed
    show "\<forall>j. ?l < int j \<and> int j < m \<longrightarrow> T ! j \<noteq> CHR '' ''"
    proof (intro allI impI)
      fix j assume a: "?l < int j \<and> int j < m"
      with ls have "j < length ?s" by linarith
      with a rfind_last[of ?s "CHR '' ''" j] have "?s ! j \<noteq> CHR '' ''" by simp
      moreover from a have "j < nat m" by linarith
      ultimately show "T ! j \<noteq> CHR '' ''" by simp
    qed
    from b ls have "?l < m" by simp
    with t assms lt show "int (length (extract_text_snippet T m)) \<le> m + 3"
      by (auto simp: min_def)
  qed
  from e s t h n len show ?thesis by (simp add: Let_def)
qed

text \<open>The theorem at three inputs: a cut at a space, a cut in a word, no cut.\<close>

theorem extract_text_snippet_truncates_witness:
  "extract_text_snippet ''abcdefghi jklm'' 10 = ''abcdefghi...''
   \<and> extract_text_snippet ''abc defghijklm'' 10 = ''abc defghi...''
   \<and> extract_text_snippet ''abc'' 10 = ''abc''"
  using extract_text_snippet_truncates[of 10 "''abcdefghi jklm''"]
        extract_text_snippet_truncates[of 10 "''abc defghijklm''"]
        extract_text_snippet_truncates[of 10 "''abc''"]
  by (simp add: Let_def)

text \<open>
  C4 as stated fails: a last space exactly at 80 percent of \<open>max_length\<close> (index 8 of
  10) does not move the cut, where the specification's wording cuts there; and for a
  negative \<open>max_length\<close> the slice counts from the end, so the length bound fails.
\<close>

theorem snippet_boundary_counterexample:
  "extract_text_snippet ''abcdefgh ijklm'' 10 = ''abcdefgh i...''
   \<and> rfind (slice_to 10 ''abcdefgh ijklm'') CHR '' '' = 8
   \<and> spec_extract_text_snippet ''abcdefgh ijklm'' 10 = ''abcdefgh...''
   \<and> extract_text_snippet ''abc'' (- 1) = ''ab...''"
  by (simp add: extract_text_snippet_def spec_extract_text_snippet_def slice_to_def Let_def)

subsection \<open>Relevance score\<close>

text \<open>
  The match count on inputs where word boundaries, overlaps and the empty keyword
  matter; the values are those of \<^verbatim>\<open>len(re.findall(...))\<close>.
\<close>

lemma count_matches_examples:
  "count_matches '''' None ''ab cd'' = 4"
  "count_matches ''a a'' None ''a a a'' = 1"
  "count_matches ''hiring'' None ''hiringhiring hiring'' = 1"
  "count_matches ''c++'' None ''c++ dev'' = 0"
  "count_matches ''a-a'' None ''a-a-a'' = 1"
  "count_matches '''' None ''x'' = 2"
  "count_matches '''' None '' '' = 0"
  by code_simp+

lemma score_loop_sum:
  "score_loop t ks acc = acc + sum_list (map (\<lambda>k. int (count_matches (lower k) None t)) ks)"
  by (induction ks arbitrary: acc) auto

lemma sum_list_mset_cong:
  fixes f :: "'a \<Rightarrow> int"
  assumes "mset xs = mset ys"
  shows "sum_list (map f xs) = sum_list (map f ys)"
proof -
  have "sum_mset (mset (map f xs)) = sum_mset (mset (map f ys))"
    using assms by (metis mset_map)
  then show ?thesis by (simp only: sum_mset_sum_list)
qed

text \<open>
  C9. The score does not depend on the order of the keywords: keyword lists that are
  permutations of each other give the same score on every text.
\<close>

theorem calculate_relevance_score_permutation:
  assumes "mset K1 = mset K2"
  shows "calculate_relevance_score T K1 = calculate_relevance_score T K2"
proof -
  from assms have "K1 = [] \<longleftrightarrow> K2 = []" by (metis mset_zero_iff)
  with sum_list_mset_cong[OF assms] show ?thesis
    by (simp add: calculate_relevance_score_def score_loop_sum)
qed

text \<open>The theorem at a text with three matches, the two keywords swapped.\<close>

theorem calculate_relevance_score_permutation_witness:
  "mset [''hiring'', ''we''] = mset [''we'', ''hiring'']
   \<and> calculate_relevance_score ''Hiring: we are hiring'' [''hiring'', ''we''] = 3
   \<and> calculate_relevance_score ''Hiring: we are hiring'' [''we'', ''hiring''] = 3"
proof -
  have p: "mset [''hiring'', ''we''] = mset [''we'', ''hiring'']" by simp
  have v: "calculate_relevance_score ''Hiring: we are hiring'' [''hiring'', ''we''] = 3"
    by code_simp
  from calculate_relevance_score_permutation[OF p, of "''Hiring: we are hiring''"] v p
  show ?thesis by simp
qed

subsection \<open>Ranking\<close>

lemma set_insert_desc: "set (insert_desc x ys) = insert x (set ys)"
  by (induction ys) auto

lemma mset_insert_desc: "mset (insert_desc x ys) = add_mset x (mset ys)"
  by (induction ys) auto

lemma mset_foldl_insert_desc:
  "mset (foldl (\<lambda>acc x. insert_desc x acc) acc xs) = mset acc + mset xs"
  by (induction xs arbitrary: acc) (auto simp: mset_insert_desc)

lemma mset_sort_desc: "mset (sort_desc xs) = mset xs"
  by (simp add: sort_desc_def mset_foldl_insert_desc)

lemma sorted_insert_desc:
  "sorted_wrt (\<lambda>a b. score_of b \<le> score_of a) ys
   \<Longrightarrow> sorted_wrt (\<lambda>a b. score_of b \<le> score_of a) (insert_desc x ys)"
  by (induction ys) (auto simp: set_insert_desc)

lemma filter_insert_desc:
  "sorted_wrt (\<lambda>a b. score_of b \<le> score_of a) ys
   \<Longrightarrow> filter (\<lambda>p. score_of p = k) (insert_desc x ys)
       = filter (\<lambda>p. score_of p = k) ys @ (if score_of x = k then [x] else [])"
proof (induction ys)
  case Nil
  then show ?case by simp
next
  case (Cons y ys)
  show ?case
  proof (cases "score_of y < score_of x")
    case True
    with Cons.prems have "\<forall>z \<in> set (y # ys). score_of z < score_of x" by auto
    then have "score_of x = k \<Longrightarrow> filter (\<lambda>p. score_of p = k) (y # ys) = []"
      by (auto simp: filter_empty_conv)
    with True show ?thesis by auto
  next
    case False
    with Cons show ?thesis by auto
  qed
qed

lemma foldl_insert_desc:
  "sorted_wrt (\<lambda>a b. score_of b \<le> score_of a) acc
   \<Longrightarrow> sorted_wrt (\<lambda>a b. score_of b \<le> score_of a) (foldl (\<lambda>acc x. insert_desc x acc) acc xs)
     \<and> filter (\<lambda>p. score_of p = k) (foldl (\<lambda>acc x. insert_desc x acc) acc xs)
         = filter (\<lambda>p. score_of p = k) acc @ filter (\<lambda>p. score_of p = k) xs"
proof (induction xs arbitrary: acc)
  case Nil
  then show ?case by simp
next
  case (Cons x xs)
  from Cons.prems have s: "sorted_wrt (\<lambda>a b. score_of b \<le> score_of a) (insert_desc x acc)"
    by (rule sorted_insert_desc)
  from Cons.IH[OF s] filter_insert_desc[OF Cons.prems, where k=k and x=x] show ?case by simp
qed

lemma sort_desc_sorted: "sorted_wrt (\<lambda>a b. score_of b \<le> score_of a) (sort_desc xs)"
  using foldl_insert_desc[where acc="[]" and k=k and xs=xs] by (simp add: sort_desc_def)

lemma sort_desc_stable:
  "filter (\<lambda>p. score_of p = k) (sort_desc xs) = filter (\<lambda>p. score_of p = k) xs"
  using foldl_insert_desc[where acc="[]" and k=k and xs=xs] by (simp add: sort_desc_def)

lemma score_value_text:
  "kws = [] \<or> text_scorable p \<Longrightarrow> score_value (get_default p ''text'' (PStr [])) kws
     = Inr (calculate_relevance_score (text_of p) kws)"
  by (auto simp: text_scorable_def text_of_def score_value_def calculate_relevance_score_def
      split: pyval.splits)

lemma score_posts_map:
  "kws = [] \<or> (\<forall>p \<in> set posts. text_scorable p)
     \<Longrightarrow> score_posts posts kws = Inr (map (with_score kws) posts)"
  by (induction posts) (auto simp: score_value_text with_score_def)

lemma score_of_with_score:
  "score_of (with_score kws p) = calculate_relevance_score (text_of p) kws"
  by (simp add: score_of_def with_score_def get_default_def update_conv')

text \<open>
  C7. On posts whose text is a string or a false value (or with no keywords at all),
  \<^verbatim>\<open>score_and_rank_posts\<close> returns the posts, each with the score of its text
  set and none lost or added, in descending order of score, and the sort is stable:
  for every score, the posts of that score come in the order they had in the input.
\<close>

theorem score_and_rank_posts_stable:
  assumes "kws = [] \<or> (\<forall>p \<in> set posts. text_scorable p)"
  shows "\<exists>out. score_and_rank_posts posts kws = Inr out
     \<and> mset out = mset (map (with_score kws) posts)
     \<and> sorted_wrt (\<lambda>a b. score_of b \<le> score_of a) out
     \<and> (\<forall>k. filter (\<lambda>p. score_of p = k) out
              = filter (\<lambda>p. score_of p = k) (map (with_score kws) posts))
     \<and> map score_of (map (with_score kws) posts)
         = map (\<lambda>p. calculate_relevance_score (text_of p) kws) posts"
  using assms
  by (simp add: score_and_rank_posts_def score_posts_map sort_desc_sorted sort_desc_stable
      score_of_with_score mset_sort_desc)

text \<open>The theorem at scenario 5: scores 3, 1, 3, 2 in input order.\<close>

theorem score_and_rank_posts_stable_witness:
  "score_and_rank_posts
     [[(''text'', PStr ''hiring hiring hiring a'')], [(''text'', PStr ''hiring b'')],
      [(''text'', PStr ''hiring hiring hiring c'')], [(''text'', PStr ''hiring hiring d'')]]
     [''hiring'']
   = Inr [[(''text'', PStr ''hiring hiring hiring a''), (''score'', PInt 3)],
          [(''text'', PStr ''hiring hiring hiring c''), (''score'', PInt 3)],
          [(''text'', PStr ''hiring hiring d''), (''score'', PInt 2)],
          [(''text'', PStr ''hiring b''), (''score'', PInt 1)]]"
proof -
  let ?posts = "[[(''text'', PStr ''hiring hiring hiring a'')], [(''text'', PStr ''hiring b'')],
      [(''text'', PStr ''hiring hiring hiring c'')], [(''text'', PStr ''hiring hiring d'')]]"
  have t: "[''hiring''] = [] \<or> (\<forall>p \<in> set ?posts. text_scorable p)"
    by (simp add: text_scorable_def get_default_def)
  from score_and_rank_posts_stable[OF t]
  obtain out where o: "score_and_rank_posts ?posts [''hiring''] = Inr out" by blast
  have "score_and_rank_posts ?posts [''hiring'']
   = Inr [[(''text'', PStr ''hiring hiring hiring a''), (''score'', PInt 3)],
          [(''text'', PStr ''hiring hiring hiring c''), (''score'', PInt 3)],
          [(''text'', PStr ''hiring hiring d''), (''score'', PInt 2)],
          [(''text'', PStr ''hiring b''), (''score'', PInt 1)]]"
    by code_simp
  with o show ?thesis by simp
qed

subsection \<open>Deduplication\<close>

lemma md5_digest_length: "length (md5_digest m) = 16"
  by (simp add: md5_digest_def le_bytes_def split: prod.splits)

lemma length_concat_hex: "length (concat (map hex_byte bs)) = 2 * length bs"
  by (induction bs) (auto simp: hex_byte_def)

lemma md5_hexdigest_length: "length (md5_hexdigest s) = 32"
  by (simp add: md5_hexdigest_def length_concat_hex md5_digest_length)

lemma md5_hexdigest_nonempty [simp]: "md5_hexdigest s \<noteq> []"
  using md5_hexdigest_length[of s] by auto

text \<open>The digest on the test vectors of RFC 1321.\<close>

lemma md5_hexdigest_examples:
  "md5_hexdigest '''' = ''d41d8cd98f00b204e9800998ecf8427e''"
  "md5_hexdigest ''abc'' = ''900150983cd24fb0d6963f7d28e17f72''"
  by code_simp+

lemma md5_hexdigest_neq: "length t \<noteq> 32 \<Longrightarrow> md5_hexdigest s \<noteq> t"
  using md5_hexdigest_length[of s] by auto

lemma resolve_key_total:
  assumes "text_is_str p"
  shows "\<exists>k. resolve_key key p = Inr k"
  using assms
  by (auto simp: resolve_key_def resolve_step2_def resolve_step3_def text_is_str_def Let_def
      split: pyval.splits)


lemma dedupe_loop_acc:
  "dedupe_loop key seen acc xs = map_sum id ((@) acc) (dedupe_loop key seen [] xs)"
proof (induction xs arbitrary: seen acc)
  case Nil
  then show ?case by simp
next
  case (Cons p ps)
  show ?case
  proof (cases "resolve_key key p")
    case (Inl e)
    then show ?thesis by simp
  next
    case (Inr k)
    have s: "dedupe_loop key S (acc @ [p]) ps = map_sum id ((@) acc) (dedupe_loop key S [p] ps)"
      for S
      using Cons.IH[of S "acc @ [p]"] Cons.IH[of S "[p]"]
      by (cases "dedupe_loop key S [] ps") auto
    from Inr s Cons.IH[of seen acc] show ?thesis by (simp add: id_def)
  qed
qed

lemma dedupe_loop_Cons:
  "dedupe_loop key seen [] (p # ps) =
     (case resolve_key key p of
        Inl e \<Rightarrow> Inl e
      | Inr k \<Rightarrow>
          if truthy k \<and> k \<notin> seen then map_sum id ((#) p) (dedupe_loop key (insert k seen) [] ps)
          else if \<not> truthy k then map_sum id ((#) p) (dedupe_loop key seen [] ps)
          else dedupe_loop key seen [] ps)"
proof -
  have "map_sum id ((@) [p]) r = map_sum id ((#) p) r" for r :: "error + post list"
    by (cases r) auto
  with dedupe_loop_acc[of key _ "[p]" ps] show ?thesis
    by (simp split: sum.splits)
qed

declare dedupe_loop.simps(2) [simp del]


lemma dedupe_loop_fixed:
  "dedupe_loop key seen [] xs = Inr zs \<Longrightarrow> dedupe_loop key seen [] zs = Inr zs"
proof (induction xs arbitrary: seen zs)
  case Nil
  then show ?case by simp
next
  case (Cons p ps)
  from Cons.prems obtain k where k: "resolve_key key p = Inr k"
    by (cases "resolve_key key p") (auto simp: dedupe_loop_Cons)
  consider (new) "truthy k" "k \<notin> seen" | (nokey) "\<not> truthy k" | (dup) "truthy k" "k \<in> seen"
    by blast
  then show ?case
  proof cases
    case new
    with Cons.prems k obtain zs' where z: "zs = p # zs'"
      "dedupe_loop key (insert k seen) [] ps = Inr zs'"
      by (cases "dedupe_loop key (insert k seen) [] ps") (auto simp: dedupe_loop_Cons)
    from Cons.IH[OF z(2)] new k z(1) show ?thesis by (simp add: dedupe_loop_Cons)
  next
    case nokey
    with Cons.prems k obtain zs' where z: "zs = p # zs'" "dedupe_loop key seen [] ps = Inr zs'"
      by (cases "dedupe_loop key seen [] ps") (auto simp: dedupe_loop_Cons)
    from Cons.IH[OF z(2)] nokey k z(1) show ?thesis by (simp add: dedupe_loop_Cons)
  next
    case dup
    with Cons.prems k have "dedupe_loop key seen [] ps = Inr zs"
      by (simp add: dedupe_loop_Cons)
    then show ?thesis by (rule Cons.IH)
  qed
qed

lemma dedupe_loop_total:
  "\<forall>p \<in> set xs. text_is_str p \<Longrightarrow> \<exists>zs. dedupe_loop key seen [] xs = Inr zs"
proof (induction xs arbitrary: seen)
  case Nil
  then show ?case by simp
next
  case (Cons p ps)
  from Cons.prems resolve_key_total[of p key] obtain k where k: "resolve_key key p = Inr k"
    by auto
  from Cons.prems Cons.IH[of "insert k seen"] Cons.IH[of seen] k show ?case
    by (auto simp: dedupe_loop_Cons)
qed

text \<open>
  C8. Deduplication is idempotent: whenever \<^verbatim>\<open>deduplicate_posts\<close> returns a list,
  applying it to that list returns the same list; and it does return on every list of
  posts whose text, when present, is a string.
\<close>

theorem deduplicate_posts_idempotent:
  "(deduplicate_posts posts key = Inr out \<longrightarrow> deduplicate_posts out key = Inr out)
   \<and> ((\<forall>p \<in> set posts. text_is_str p) \<longrightarrow> (\<exists>r. deduplicate_posts posts key = Inr r))"
  using dedupe_loop_fixed[of key "{}" posts out] dedupe_loop_total[of posts key "{}"]
  by (auto simp: deduplicate_posts_def)





text \<open>
  The theorem at posts with the keys a, b, a, c: the result a, b, c is a fixed point.
\<close>

theorem deduplicate_posts_idempotent_witness:
  "deduplicate_posts
     [[(''post_url'', PStr ''a'')], [(''post_url'', PStr ''b'')], [(''post_url'', PStr ''a'')],
      [(''post_url'', PStr ''c'')]] ''post_url''
   = Inr [[(''post_url'', PStr ''a'')], [(''post_url'', PStr ''b'')], [(''post_url'', PStr ''c'')]]
   \<and> deduplicate_posts
     [[(''post_url'', PStr ''a'')], [(''post_url'', PStr ''b'')], [(''post_url'', PStr ''c'')]]
     ''post_url''
   = Inr [[(''post_url'', PStr ''a'')], [(''post_url'', PStr ''b'')], [(''post_url'', PStr ''c'')]]"
proof -
  have v: "deduplicate_posts
     [[(''post_url'', PStr ''a'')], [(''post_url'', PStr ''b'')], [(''post_url'', PStr ''a'')],
      [(''post_url'', PStr ''c'')]] ''post_url''
   = Inr [[(''post_url'', PStr ''a'')], [(''post_url'', PStr ''b'')], [(''post_url'', PStr ''c'')]]"
    by (simp add: deduplicate_posts_def dedupe_loop.simps(2) md5_hexdigest_neq resolve_key_def resolve_step2_def
        resolve_step3_def get_def get_default_def)
  from deduplicate_posts_idempotent[of
     "[[(''post_url'', PStr ''a'')], [(''post_url'', PStr ''b'')], [(''post_url'', PStr ''a'')],
      [(''post_url'', PStr ''c'')]]" "''post_url''"
     "[[(''post_url'', PStr ''a'')], [(''post_url'', PStr ''b'')], [(''post_url'', PStr ''c'')]]"] v
  show ?thesis by blast
qed

subsection \<open>Normalization and cleaning\<close>

lemma is_space_blank [simp]: "is_space CHR '' ''"
  by (simp add: is_space_def)

lemma collapse_ws_hd:
  "collapse_ws s = c # r \<Longrightarrow> is_space c \<Longrightarrow> c = CHR '' '' \<and> (\<exists>x xs. s = x # xs \<and> is_space x)"
  by (cases s) (auto split: if_splits)

lemma collapse_ws_hd_nonspace:
  "s \<noteq> [] \<Longrightarrow> \<not> is_space (hd s) \<Longrightarrow> collapse_ws s \<noteq> [] \<and> \<not> is_space (hd (collapse_ws s))"
  by (cases s) auto

lemma single_spaced_Cons:
  "single_spaced (c # cs) =
     ((is_space c \<longrightarrow> c = CHR '' '' \<and> (cs \<noteq> [] \<longrightarrow> \<not> is_space (hd cs))) \<and> single_spaced cs)"
  by (cases cs) auto

lemma single_spaced_collapse_ws: "single_spaced (collapse_ws s)"
proof (induction s rule: collapse_ws.induct)
  case 1
  then show ?case by simp
next
  case (2 c cs)
  show ?case
  proof (cases "is_space c")
    case True
    let ?r = "dropWhile is_space cs"
    have "collapse_ws ?r \<noteq> [] \<longrightarrow> \<not> is_space (hd (collapse_ws ?r))"
    proof
      assume "collapse_ws ?r \<noteq> []"
      then have ne: "?r \<noteq> []" by (metis collapse_ws.simps(1))
      then have "\<not> is_space (hd ?r)" by (rule hd_dropWhile)
      with ne show "\<not> is_space (hd (collapse_ws ?r))" by (simp add: collapse_ws_hd_nonspace)
    qed
    with True 2 show ?thesis by (simp add: single_spaced_Cons)
  next
    case False
    with 2 show ?thesis by (simp add: single_spaced_Cons)
  qed
qed

lemma collapse_ws_single_spaced: "single_spaced s \<Longrightarrow> collapse_ws s = s"
proof (induction s rule: collapse_ws.induct)
  case 1
  then show ?case by simp
next
  case (2 c cs)
  from "2.prems" have s: "single_spaced cs"
    and h: "is_space c \<Longrightarrow> c = CHR '' '' \<and> (cs \<noteq> [] \<longrightarrow> \<not> is_space (hd cs))"
    by (auto simp: single_spaced_Cons)
  show ?case
  proof (cases "is_space c")
    case True
    with h have d: "dropWhile is_space cs = cs" by (cases cs) auto
    with True 2 s h show ?thesis by simp
  next
    case False
    with 2 s show ?thesis by simp
  qed
qed

lemma single_spaced_drop: "single_spaced s \<Longrightarrow> single_spaced (drop n s)"
proof (induction n arbitrary: s)
  case 0
  then show ?case by simp
next
  case (Suc n)
  then show ?case by (cases s) (auto simp: single_spaced_Cons)
qed

lemma single_spaced_take: "single_spaced s \<Longrightarrow> single_spaced (take n s)"
proof (induction s arbitrary: n)
  case Nil
  then show ?case by simp
next
  case (Cons c cs)
  show ?case
  proof (cases n)
    case 0
    then show ?thesis by simp
  next
    case (Suc m)
    from Cons.prems have "single_spaced cs" by (simp add: single_spaced_Cons)
    then have t: "single_spaced (take m cs)" by (rule Cons.IH)
    have "take m cs \<noteq> [] \<Longrightarrow> hd (take m cs) = hd cs" by (cases m; cases cs) auto
    with Cons.prems t Suc show ?thesis by (auto simp: single_spaced_Cons)
  qed
qed

lemma strip_take_drop:
  "\<exists>j k. strip s = take k (drop j s)"
proof -
  let ?d = "dropWhile is_space s"
  have a: "?d = drop (length (takeWhile is_space s)) s" by (rule dropWhile_eq_drop)
  have "dropWhile is_space (rev ?d) = drop (length (takeWhile is_space (rev ?d))) (rev ?d)"
    by (rule dropWhile_eq_drop)
  then have "strip s = take (length ?d - length (takeWhile is_space (rev ?d))) ?d"
    by (simp add: strip_def rev_drop)
  with a show ?thesis by metis
qed

lemma single_spaced_strip: "single_spaced s \<Longrightarrow> single_spaced (strip s)"
  using strip_take_drop[of s] by (auto simp: single_spaced_take single_spaced_drop)

lemma strip_ends:
  "strip s \<noteq> [] \<Longrightarrow> \<not> is_space (hd (strip s)) \<and> \<not> is_space (last (strip s))"
proof -
  assume ne: "strip s \<noteq> []"
  let ?d = "dropWhile is_space s"
  let ?e = "dropWhile is_space (rev ?d)"
  from ne have e: "?e \<noteq> []" by (simp add: strip_def)
  then have l: "\<not> is_space (hd ?e)" by (rule hd_dropWhile)
  from e have "last (strip s) = hd ?e" by (simp add: strip_def last_rev)
  with l have last: "\<not> is_space (last (strip s))" by simp
  from e have d: "?d \<noteq> []" by (metis dropWhile.simps(1) rev.simps(1))
  then have hd: "\<not> is_space (hd ?d)" by (rule hd_dropWhile)
  from strip_take_drop obtain k where k: "strip s = rev ?e" by (simp add: strip_def)
  have "\<exists>n. ?e = drop n (rev ?d)" using dropWhile_eq_drop by blast
  then obtain n where "?e = drop n (rev ?d)" ..
  then have "rev ?e = take (length ?d - n) ?d" by (simp add: rev_drop)
  with ne have "hd (strip s) = hd ?d" by (cases "length ?d - n"; cases ?d) (auto simp: strip_def)
  with hd last show ?thesis by simp
qed

lemma dropWhile_hd: "xs \<noteq> [] \<Longrightarrow> \<not> P (hd xs) \<Longrightarrow> dropWhile P xs = xs"
  by (cases xs) auto

lemma strip_fixed:
  assumes "s = [] \<or> (\<not> is_space (hd s) \<and> \<not> is_space (last s))"
  shows "strip s = s"
proof (cases "s = []")
  case True
  then show ?thesis by (simp add: strip_def)
next
  case False
  with assms have h: "\<not> is_space (hd s)" and l: "\<not> is_space (last s)" by auto
  from False h have d: "dropWhile is_space s = s" by (rule dropWhile_hd)
  from False l have "\<not> is_space (hd (rev s))" by (simp add: hd_rev)
  with False have "dropWhile is_space (rev s) = rev s" by (intro dropWhile_hd) auto
  with d show ?thesis by (simp add: strip_def)
qed

lemma normalize_text_fixed:
  "normalize_text (normalize_text s) = normalize_text s"
proof (cases "s = []")
  case True
  then show ?thesis by (simp add: normalize_text_def)
next
  case False
  let ?r = "strip (collapse_ws s)"
  have ss: "single_spaced ?r" by (simp add: single_spaced_strip single_spaced_collapse_ws)
  have "strip ?r = ?r" using strip_ends[of "collapse_ws s"] by (intro strip_fixed) auto
  with ss False show ?thesis by (simp add: normalize_text_def collapse_ws_single_spaced)
qed
lemma store_append [simp]:
  "store (h @ [d]) (length h) k v = h @ [AList.update k v d]"
  by (simp add: store_def)

lemma clean_text_append:
  "clean_text (h @ [d]) (length h) =
     (case text_step d of Inl e \<Rightarrow> (h @ [d], Inl e) | Inr d' \<Rightarrow> (h @ [d'], Inr ()))"
proof (cases "map_of d ''text''")
  case None
  then show ?thesis by (simp add: clean_text_def text_step_def)
next
  case (Some v)
  show ?thesis
  proof (cases "normalize_value v")
    case (Inl e)
    with Some show ?thesis by (simp add: clean_text_def text_step_def)
  next
    case (Inr t)
    have "snippet_value (PStr t) = Inr (extract_text_snippet t 200)"
      by (simp add: snippet_value_def extract_text_snippet_def)
    with Some Inr show ?thesis
      by (simp add: clean_text_def text_step_def Let_def get_def get_default_def update_conv')
  qed
qed

lemma clean_url_append:
  "clean_url k (h @ [d]) (length h) =
     (case url_step k d of Inl e \<Rightarrow> (h @ [d], Inl e) | Inr d' \<Rightarrow> (h @ [d'], Inr ()))"
  by (simp add: clean_url_def url_step_def split: option.splits pyval.splits)

lemma clean_date_append:
  "clean_date now f (h @ [d]) (length h) = h @ [date_step now f d]"
  by (simp add: clean_date_def date_step_def split: option.splits pyval.splits)

lemma clean_post_data_steps:
  "clean_post_data now f h p =
     (case text_step (h ! p) of
        Inl e \<Rightarrow> (h @ [h ! p], Inl e)
      | Inr d1 \<Rightarrow>
      (case url_step ''post_url'' d1 of
        Inl e \<Rightarrow> (h @ [d1], Inl e)
      | Inr d2 \<Rightarrow>
      (case url_step ''author_url'' d2 of
        Inl e \<Rightarrow> (h @ [d2], Inl e)
      | Inr d3 \<Rightarrow> (h @ [date_step now f d3], Inr (length h)))))"
  by (simp add: clean_post_data_def Let_def clean_text_append clean_url_append clean_date_append
      split: sum.splits)

lemma clean_post_data_heap: "\<exists>d. fst (clean_post_data now f h p) = h @ [d]"
  by (simp add: clean_post_data_steps split: sum.splits)

lemma clean_post_data_success:
  "clean_post_data now f h p = (h', Inr c)
     \<longleftrightarrow> (\<exists>d. clean_dict now f (h ! p) = Inr d \<and> h' = h @ [d] \<and> c = length h)"
  by (auto simp: clean_post_data_steps clean_dict_def split: sum.splits)

lemma clean_value_dict: "clean_value now f d = clean_dict now f d"
  by (simp add: clean_value_def clean_post_data_steps clean_dict_def split: sum.splits)

text \<open>
  C10. \<^verbatim>\<open>clean_post_data\<close> never mutates its argument: whatever the call does, also
  when it raises, every dictionary that was in the store before the call is the same
  after it, the argument among them; the call allocates exactly one dictionary, the
  copy, and the reference it returns is that new one.
\<close>

theorem clean_post_data_frame:
  "take (length h) (fst (clean_post_data now f h p)) = h
   \<and> length (fst (clean_post_data now f h p)) = Suc (length h)
   \<and> (p < length h \<longrightarrow> fst (clean_post_data now f h p) ! p = h ! p)
   \<and> (\<forall>c. snd (clean_post_data now f h p) = Inr c \<longrightarrow> c = length h)"
proof -
  from clean_post_data_heap obtain d where d: "fst (clean_post_data now f h p) = h @ [d]"
    by blast
  have "snd (clean_post_data now f h p) = Inr c \<longrightarrow> c = length h" for c
    using clean_post_data_success[of now f h p "fst (clean_post_data now f h p)" c]
    by (cases "clean_post_data now f h p") auto
  with d show ?thesis by (simp add: nth_append)
qed
lemma normalize_value_fixed:
  "normalize_value v = Inr t \<Longrightarrow> normalize_text t = t"
  by (auto simp: normalize_value_def normalize_text_fixed split: if_splits pyval.splits)
     (simp add: normalize_text_def)

lemma text_step_clean: "text_step d = Inr d' \<Longrightarrow> text_clean d'"
  by (auto simp: text_step_def text_clean_def update_conv' normalize_value_fixed
      split: option.splits sum.splits)

lemma text_step_fixed: "text_clean d \<Longrightarrow> text_step d = Inr d"
proof (cases "map_of d ''text''")
  case None
  then show ?thesis by (simp add: text_step_def)
next
  case (Some v)
  assume "text_clean d"
  with Some obtain t where t: "v = PStr t" "normalize_text t = t"
    "map_of d ''text_snippet'' = Some (PStr (extract_text_snippet t 200))"
    by (auto simp: text_clean_def split: pyval.splits)
  from t(2) have n: "normalize_value (PStr t) = Inr t"
    by (auto simp: normalize_value_def)
  from Some t(1) have u: "AList.update ''text'' (PStr t) d = d" by (simp add: update_triv)
  from t(3) have "AList.update ''text_snippet'' (PStr (extract_text_snippet t 200)) d = d"
    by (simp add: update_triv)
  with Some t(1) n u show ?thesis by (simp add: text_step_def)
qed

lemma url_step_clean: "url_step k d = Inr d' \<Longrightarrow> url_clean k d'"
  by (auto simp: url_step_def url_clean_def update_conv' startswith_def
      split: option.splits pyval.splits if_splits)

lemma url_step_fixed: "url_clean k d \<Longrightarrow> url_step k d = Inr d"
  by (auto simp: url_step_def url_clean_def split: option.splits pyval.splits)

lemma url_step_other:
  "url_step k d = Inr d' \<Longrightarrow> k' \<noteq> k \<Longrightarrow> map_of d' k' = map_of d k'"
  by (auto simp: url_step_def update_conv' split: option.splits pyval.splits if_splits)

lemma date_step_clean: "date_clean (date_step now f d)"
  by (auto simp: date_step_def date_clean_def update_conv' split: option.splits pyval.splits)

lemma date_step_fixed: "date_clean d \<Longrightarrow> date_step now f d = d"
  by (auto simp: date_step_def date_clean_def split: option.splits pyval.splits)

lemma date_step_other:
  "k' \<noteq> ''date_posted'' \<Longrightarrow> map_of (date_step now f d) k' = map_of d k'"
  by (auto simp: date_step_def update_conv' split: option.splits pyval.splits)

lemma text_clean_cong:
  "map_of d' ''text'' = map_of d ''text'' \<Longrightarrow> map_of d' ''text_snippet'' = map_of d ''text_snippet''
   \<Longrightarrow> text_clean d' = text_clean d"
  by (simp add: text_clean_def split: option.splits pyval.splits)

lemma url_clean_cong: "map_of d' k = map_of d k \<Longrightarrow> url_clean k d' = url_clean k d"
  by (simp add: url_clean_def)

lemma clean_dict_fixed:
  assumes "clean_dict now1 f d = Inr d'"
  shows "clean_dict now2 f d' = Inr d'"
proof -
  from assms obtain d1 d2 d3 where s:
    "text_step d = Inr d1" "url_step ''post_url'' d1 = Inr d2"
    "url_step ''author_url'' d2 = Inr d3" "d' = date_step now1 f d3"
    by (auto simp: clean_dict_def split: sum.splits)
  have t1: "text_clean d1" using s(1) by (rule text_step_clean)
  have t2: "text_clean d2"
    using t1 text_clean_cong[of d2 d1] url_step_other[OF s(2)] by simp
  have t3: "text_clean d3"
    using t2 text_clean_cong[of d3 d2] url_step_other[OF s(3)] by simp
  have t: "text_clean d'"
    using t3 text_clean_cong[of d' d3] date_step_other[of _ now1 f d3] s(4) by simp
  have p2: "url_clean ''post_url'' d2" using s(2) by (rule url_step_clean)
  have p3: "url_clean ''post_url'' d3"
    using p2 url_clean_cong[of d3 "''post_url''" d2] url_step_other[OF s(3)] by simp
  have p: "url_clean ''post_url'' d'"
    using p3 url_clean_cong[of d' "''post_url''" d3] date_step_other[of _ now1 f d3] s(4) by simp
  have a3: "url_clean ''author_url'' d3" using s(3) by (rule url_step_clean)
  have a: "url_clean ''author_url'' d'"
    using a3 url_clean_cong[of d' "''author_url''" d3] date_step_other[of _ now1 f d3] s(4)
    by simp
  have c: "date_clean d'" unfolding s(4) by (rule date_step_clean)
  from t p a c show ?thesis
    by (simp add: clean_dict_def text_step_fixed url_step_fixed date_step_fixed)
qed

lemma clean_dict_total:
  assumes "well_typed d"
  shows "\<exists>d'. clean_dict now f d = Inr d'"
proof -
  from assms have "str_or_none (map_of d ''text'')" by (simp add: well_typed_def)
  then have "\<exists>d1. text_step d = Inr d1"
    by (cases "map_of d ''text''")
       (auto simp: str_or_none_def text_step_def normalize_value_def split: pyval.splits)
  then obtain d1 where d1: "text_step d = Inr d1" ..
  then have o: "map_of d1 k = map_of d k" if "k \<noteq> ''text''" "k \<noteq> ''text_snippet''" for k
    using that by (auto simp: text_step_def update_conv' split: option.splits sum.splits)
  from assms o have "str_or_none (map_of d1 ''post_url'')" by (simp add: well_typed_def)
  then have "\<exists>d2. url_step ''post_url'' d1 = Inr d2"
    by (cases "map_of d1 ''post_url''")
       (auto simp: str_or_none_def url_step_def split: pyval.splits)
  then obtain d2 where d2: "url_step ''post_url'' d1 = Inr d2" ..
  from assms o url_step_other[OF d2, of "''author_url''"]
  have "str_or_none (map_of d2 ''author_url'')" by (simp add: well_typed_def)
  then have "\<exists>d3. url_step ''author_url'' d2 = Inr d3"
    by (cases "map_of d2 ''author_url''")
       (auto simp: str_or_none_def url_step_def split: pyval.splits)
  then obtain d3 where d3: "url_step ''author_url'' d2 = Inr d3" ..
  from d1 d2 d3 show ?thesis by (simp add: clean_dict_def)
qed

text \<open>
  C6. \<^verbatim>\<open>clean_post_data\<close> is idempotent: when a call returns a cleaned record,
  cleaning that record again, at any later time, returns a record equal to it; and the
  call does return on every record whose text and URLs are strings or \<^verbatim>\<open>None\<close>.
\<close>

theorem clean_post_data_idempotent:
  "(clean_post_data now1 f h p = (h1, Inr c1) \<longrightarrow>
      (\<exists>h2 c2. clean_post_data now2 f h1 c1 = (h2, Inr c2) \<and> h2 ! c2 = h1 ! c1))
   \<and> (well_typed (h ! p) \<longrightarrow> (\<exists>h1 c1. clean_post_data now1 f h p = (h1, Inr c1)))"
proof (intro conjI impI)
  assume "clean_post_data now1 f h p = (h1, Inr c1)"
  then obtain d where d: "clean_dict now1 f (h ! p) = Inr d" "h1 = h @ [d]" "c1 = length h"
    by (auto simp: clean_post_data_success)
  from d have "clean_dict now2 f (h1 ! c1) = Inr d" by (simp add: clean_dict_fixed)
  then have "clean_post_data now2 f h1 c1 = (h1 @ [d], Inr (length h1))"
    by (simp add: clean_post_data_success)
  moreover have "(h1 @ [d]) ! length h1 = d" by simp
  moreover from d have "h1 ! c1 = d" by simp
  ultimately show "\<exists>h2 c2. clean_post_data now2 f h1 c1 = (h2, Inr c2) \<and> h2 ! c2 = h1 ! c1"
    by blast
next
  assume "well_typed (h ! p)"
  from clean_dict_total[OF this, of now1 f] show "\<exists>h1 c1. clean_post_data now1 f h p = (h1, Inr c1)"
    by (auto simp: clean_post_data_success)
qed
text \<open>
  The theorem at a post with a relative URL, unnormalized text and an unparseable
  textual date: the second call, a day later, returns an equal record.
\<close>

theorem clean_post_data_idempotent_witness:
  "clean_post_data (mk_datetime 2024 6 15 12 0 None) (\<lambda>s. None)
     [[(''post_url'', PStr ''/posts/1''), (''text'', PStr ''  We  are hiring ''),
       (''date_posted'', PStr ''yesterday'')]] 0
   = ([[(''post_url'', PStr ''/posts/1''), (''text'', PStr ''  We  are hiring ''),
        (''date_posted'', PStr ''yesterday'')],
       [(''post_url'', PStr ''https://www.linkedin.com/posts/1''),
        (''text'', PStr ''We are hiring''),
        (''date_posted'', PDate (mk_datetime 2024 6 15 12 0 None)),
        (''text_snippet'', PStr ''We are hiring'')]], Inr 1)
   \<and> (\<exists>h2 c2. clean_post_data (mk_datetime 2024 6 16 9 30 None) (\<lambda>s. None)
        [[(''post_url'', PStr ''/posts/1''), (''text'', PStr ''  We  are hiring ''),
          (''date_posted'', PStr ''yesterday'')],
         [(''post_url'', PStr ''https://www.linkedin.com/posts/1''),
          (''text'', PStr ''We are hiring''),
          (''date_posted'', PDate (mk_datetime 2024 6 15 12 0 None)),
          (''text_snippet'', PStr ''We are hiring'')]] 1 = (h2, Inr c2)
      \<and> h2 ! c2 =
          [(''post_url'', PStr ''https://www.linkedin.com/posts/1''),
           (''text'', PStr ''We are hiring''),
           (''date_posted'', PDate (mk_datetime 2024 6 15 12 0 None)),
           (''text_snippet'', PStr ''We are hiring'')])"
  (is "?c1 = (?h1, Inr 1) \<and> (\<exists>h2 c2. ?c2 = (h2, Inr c2) \<and> h2 ! c2 = ?C)")
proof -
  have v: "?c1 = (?h1, Inr 1)" by code_simp
  have "?h1 ! 1 = ?C" by simp
  with clean_post_data_idempotent[of "mk_datetime 2024 6 15 12 0 None" "\<lambda>s. None" _ 0 ?h1 1
        "mk_datetime 2024 6 16 9 30 None"] v
  show ?thesis by simp
qed

text \<open>
  The theorem at a store of one uncleaned post: the post is unchanged after the call,
  and the call returns the new reference.
\<close>

theorem clean_post_data_frame_witness:
  "fst (clean_post_data (mk_datetime 2024 6 15 12 0 None) (\<lambda>s. None)
     [[(''post_url'', PStr ''/posts/1''), (''text'', PStr ''  We  are hiring ''),
       (''date_posted'', PStr ''yesterday'')]] 0) ! 0
   = [(''post_url'', PStr ''/posts/1''), (''text'', PStr ''  We  are hiring ''),
       (''date_posted'', PStr ''yesterday'')]
   \<and> snd (clean_post_data (mk_datetime 2024 6 15 12 0 None) (\<lambda>s. None)
     [[(''post_url'', PStr ''/posts/1''), (''text'', PStr ''  We  are hiring ''),
       (''date_posted'', PStr ''yesterday'')]] 0) = Inr 1"
proof -
  have "snd (clean_post_data (mk_datetime 2024 6 15 12 0 None) (\<lambda>s. None)
     [[(''post_url'', PStr ''/posts/1''), (''text'', PStr ''  We  are hiring ''),
       (''date_posted'', PStr ''yesterday'')]] 0) = Inr 1"
    by code_simp
  with clean_post_data_frame[of
     "[[(''post_url'', PStr ''/posts/1''), (''text'', PStr ''  We  are hiring ''),
       (''date_posted'', PStr ''yesterday'')]]" "mk_datetime 2024 6 15 12 0 None" "\<lambda>s. None" 0]
  show ?thesis by simp
qed

subsection \<open>Relative dates\<close>

lemma search_number_examples:
  "search_number ''hour'' ''3 hours ago'' = Some ''3''"
  "search_number ''day'' ''about 1 hour ago 5 days'' = Some ''5''"
  "search_number ''hour'' ''x9 9  hour'' = Some ''9''"
  "search_number ''month'' ''12months'' = Some ''12''"
  "search_number ''hour'' ''3h'' = None"
  by code_simp+

lemma to_micro_ordinal:
  "ymd2ord 2024 6 15 = 739052"
  "to_micro (mk_datetime 2024 6 15 12 0 None) = 63854049600000000"
  by code_simp+

lemma replace_hour_duration:
  "replace_hour t (hour t - n) = Some t' \<Longrightarrow> to_micro t' = to_micro t - n * 3600000000"
  by (auto simp: replace_hour_def to_micro_def split: if_splits)

lemma replace_day_duration:
  "replace_day t (day t - n) = Some t' \<Longrightarrow> to_micro t' = to_micro t - n * 86400000000"
  by (auto simp: replace_day_def to_micro_def ymd2ord_def split: if_splits)

lemma replace_hour_raises: "hour t < n \<Longrightarrow> replace_hour t (hour t - n) = None"
  by (simp add: replace_hour_def)

lemma replace_day_raises: "day t \<le> n \<Longrightarrow> replace_day t (day t - n) = None"
  by (simp add: replace_day_def)

text \<open>
  C5 fails where the subtraction leaves the calendar field: at 01:30 on 1 March 2024,
  \<^verbatim>\<open>3 hours ago\<close>, \<^verbatim>\<open>2 days ago\<close>, \<^verbatim>\<open>1 week ago\<close> and \<^verbatim>\<open>5 months ago\<close>
  all give the current time itself (\<^verbatim>\<open>replace\<close> raises and the exception is
  swallowed), where three hours earlier is 22:30 on 29 February. Within the field's
  range the result is right: at 13:30, three hours ago is 10:30.
\<close>

theorem parse_relative_date_underflow:
  "parse_relative_date (mk_datetime 2024 3 1 1 30 None) ''3 hours ago''
     = Some (mk_datetime 2024 3 1 1 30 None)
   \<and> to_micro (mk_datetime 2024 3 1 1 30 None) - 3 * 3600000000
     = to_micro (mk_datetime 2024 2 29 22 30 None)
   \<and> parse_relative_date (mk_datetime 2024 3 1 1 30 None) ''2 days ago''
     = Some (mk_datetime 2024 3 1 1 30 None)
   \<and> parse_relative_date (mk_datetime 2024 3 1 1 30 None) ''1 week ago''
     = Some (mk_datetime 2024 3 1 1 30 None)
   \<and> parse_relative_date (mk_datetime 2024 3 1 1 30 None) ''5 months ago''
     = Some (mk_datetime 2024 3 1 1 30 None)
   \<and> parse_relative_date (mk_datetime 2024 3 1 13 30 None) ''3 hours ago''
     = Some (mk_datetime 2024 3 1 10 30 None)"
  by code_simp

text \<open>
  What the parser returns on the four phrases, for every number: the field replaced when
  the difference is a value of the field, the current time itself when it is not.
\<close>

lemma digit_not_space: "is_digit c \<Longrightarrow> \<not> is_space c"
  by (auto simp: is_digit_def is_space_def)

lemma digit_not_upper: "is_digit c \<Longrightarrow> \<not> is_upper c"
  by (auto simp: is_digit_def is_upper_def)

lemma lower_digits: "\<forall>c \<in> set ds. is_digit c \<Longrightarrow> lower ds = ds"
  by (induction ds) (auto simp: lower_def lower_char_def digit_not_upper)

lemma lower_append: "lower (xs @ ys) = lower xs @ lower ys"
  by (simp add: lower_def)

lemma search_number_no_digit: "\<forall>c \<in> set r. \<not> is_digit c \<Longrightarrow> search_number u r = None"
  by (induction r) auto

lemma dropWhile_digits:
  "\<forall>c \<in> set ds. is_digit c \<Longrightarrow> \<forall>c \<in> set r. \<not> is_digit c
     \<Longrightarrow> dropWhile is_digit (ds @ r) = r"
  by (cases r) (auto simp: dropWhile_append2)

lemma takeWhile_digits:
  "\<forall>c \<in> set ds. is_digit c \<Longrightarrow> \<forall>c \<in> set r. \<not> is_digit c
     \<Longrightarrow> takeWhile is_digit (ds @ r) = ds"
  by (cases r) (auto simp: takeWhile_append2)

lemma search_number_found:
  assumes "ds \<noteq> []" and "\<forall>c \<in> set ds. is_digit c" and "\<forall>c \<in> set r. \<not> is_digit c"
    and "startswith (dropWhile is_space r) u"
  shows "search_number u (ds @ r) = Some ds"
proof -
  from assms(1) obtain c cs where ds: "ds = c # cs" by (cases ds) auto
  with assms(2) have c: "is_digit c" by simp
  from dropWhile_digits[OF assms(2,3)] takeWhile_digits[OF assms(2,3)] assms(4) c
  show ?thesis unfolding ds by simp
qed

lemma search_number_missing:
  assumes "\<forall>c \<in> set ds. is_digit c" and "\<forall>c \<in> set r. \<not> is_digit c"
    and "\<not> startswith (dropWhile is_space r) u"
  shows "search_number u (ds @ r) = None"
  using assms(1)
proof (induction ds)
  case Nil
  with assms(2) show ?case by (simp add: search_number_no_digit)
next
  case (Cons c cs)
  then have a: "\<forall>x \<in> set (c # cs). is_digit x" by simp
  from dropWhile_digits[OF a assms(2)] assms(3) Cons show ?case by simp
qed

lemma strip_digits_phrase:
  assumes "ds \<noteq> []" and "\<forall>c \<in> set ds. is_digit c" and "r \<noteq> []" and "\<not> is_space (last r)"
  shows "strip (ds @ r) = ds @ r"
proof (rule strip_fixed)
  from assms(1,2) have "\<not> is_space (hd (ds @ r))" by (cases ds) (auto simp: digit_not_space)
  with assms(3,4) show "ds @ r = [] \<or> \<not> is_space (hd (ds @ r)) \<and> \<not> is_space (last (ds @ r))"
    by simp
qed

lemma no_digit_phrases:
  "\<forall>c \<in> set '' hours ago''. \<not> is_digit c"
  "\<forall>c \<in> set '' days ago''. \<not> is_digit c"
  "\<forall>c \<in> set '' weeks ago''. \<not> is_digit c"
  "\<forall>c \<in> set '' months ago''. \<not> is_digit c"
  by (simp_all add: is_digit_def)

lemma lower_phrases:
  "lower '' hours ago'' = '' hours ago''" "lower '' days ago'' = '' days ago''"
  "lower '' weeks ago'' = '' weeks ago''" "lower '' months ago'' = '' months ago''"
  by (simp_all add: lower_def lower_char_def is_upper_def)

lemma parse_relative_hours:
  assumes "ds \<noteq> []" and "\<forall>c \<in> set ds. is_digit c"
  shows "parse_relative_date now (ds @ '' hours ago'')
     = Some (case replace_hour now (hour now - int_of_digits ds) of Some t \<Rightarrow> t | None \<Rightarrow> now)"
proof -
  let ?r = "'' hours ago''"
  have t: "strip (lower (ds @ ?r)) = ds @ ?r"
    using strip_digits_phrase[OF assms, of ?r]
    by (simp add: lower_append lower_digits[OF assms(2)] lower_phrases is_space_def)
  have h: "search_number ''hour'' (ds @ ?r) = Some ds"
    by (rule search_number_found[OF assms no_digit_phrases(1)])
       (simp add: startswith_def is_space_def)
  have d: "search_number ''day'' (ds @ ?r) = None"
    by (rule search_number_missing[OF assms(2) no_digit_phrases(1)])
       (simp add: startswith_def is_space_def)
  have w: "search_number ''week'' (ds @ ?r) = None"
    by (rule search_number_missing[OF assms(2) no_digit_phrases(1)])
       (simp add: startswith_def is_space_def)
  have m: "search_number ''month'' (ds @ ?r) = None"
    by (rule search_number_missing[OF assms(2) no_digit_phrases(1)])
       (simp add: startswith_def is_space_def)
  from assms(1) t h d w m show ?thesis
    by (simp add: parse_relative_date_def patterns_def split: option.splits)
qed

lemma parse_relative_days:
  assumes "ds \<noteq> []" and "\<forall>c \<in> set ds. is_digit c"
  shows "parse_relative_date now (ds @ '' days ago'')
     = Some (case replace_day now (day now - int_of_digits ds) of Some t \<Rightarrow> t | None \<Rightarrow> now)"
proof -
  let ?r = "'' days ago''"
  have t: "strip (lower (ds @ ?r)) = ds @ ?r"
    using strip_digits_phrase[OF assms, of ?r]
    by (simp add: lower_append lower_digits[OF assms(2)] lower_phrases is_space_def)
  have h: "search_number ''hour'' (ds @ ?r) = None"
    by (rule search_number_missing[OF assms(2) no_digit_phrases(2)])
       (simp add: startswith_def is_space_def)
  have d: "search_number ''day'' (ds @ ?r) = Some ds"
    by (rule search_number_found[OF assms no_digit_phrases(2)])
       (simp add: startswith_def is_space_def)
  have w: "search_number ''week'' (ds @ ?r) = None"
    by (rule search_number_missing[OF assms(2) no_digit_phrases(2)])
       (simp add: startswith_def is_space_def)
  have m: "search_number ''month'' (ds @ ?r) = None"
    by (rule search_number_missing[OF assms(2) no_digit_phrases(2)])
       (simp add: startswith_def is_space_def)
  from assms(1) t h d w m show ?thesis
    by (simp add: parse_relative_date_def patterns_def split: option.splits)
qed

lemma parse_relative_weeks:
  assumes "ds \<noteq> []" and "\<forall>c \<in> set ds. is_digit c"
  shows "parse_relative_date now (ds @ '' weeks ago'')
     = Some (case replace_day now (day now - int_of_digits ds * 7) of
               Some t \<Rightarrow> t | None \<Rightarrow> now)"
proof -
  let ?r = "'' weeks ago''"
  have t: "strip (lower (ds @ ?r)) = ds @ ?r"
    using strip_digits_phrase[OF assms, of ?r]
    by (simp add: lower_append lower_digits[OF assms(2)] lower_phrases is_space_def)
  have h: "search_number ''hour'' (ds @ ?r) = None"
    by (rule search_number_missing[OF assms(2) no_digit_phrases(3)])
       (simp add: startswith_def is_space_def)
  have d: "search_number ''day'' (ds @ ?r) = None"
    by (rule search_number_missing[OF assms(2) no_digit_phrases(3)])
       (simp add: startswith_def is_space_def)
  have w: "search_number ''week'' (ds @ ?r) = Some ds"
    by (rule search_number_found[OF assms no_digit_phrases(3)])
       (simp add: startswith_def is_space_def)
  have m: "search_number ''month'' (ds @ ?r) = None"
    by (rule search_number_missing[OF assms(2) no_digit_phrases(3)])
       (simp add: startswith_def is_space_def)
  from assms(1) t h d w m show ?thesis
    by (simp add: parse_relative_date_def patterns_def split: option.splits)
qed

lemma parse_relative_months:
  assumes "ds \<noteq> []" and "\<forall>c \<in> set ds. is_digit c"
  shows "parse_relative_date now (ds @ '' months ago'')
     = Some (case replace_month now (month now - int_of_digits ds) of
               Some t \<Rightarrow> t | None \<Rightarrow> now)"
proof -
  let ?r = "'' months ago''"
  have t: "strip (lower (ds @ ?r)) = ds @ ?r"
    using strip_digits_phrase[OF assms, of ?r]
    by (simp add: lower_append lower_digits[OF assms(2)] lower_phrases is_space_def)
  have h: "search_number ''hour'' (ds @ ?r) = None"
    by (rule search_number_missing[OF assms(2) no_digit_phrases(4)])
       (simp add: startswith_def is_space_def)
  have d: "search_number ''day'' (ds @ ?r) = None"
    by (rule search_number_missing[OF assms(2) no_digit_phrases(4)])
       (simp add: startswith_def is_space_def)
  have w: "search_number ''week'' (ds @ ?r) = None"
    by (rule search_number_missing[OF assms(2) no_digit_phrases(4)])
       (simp add: startswith_def is_space_def)
  have m: "search_number ''month'' (ds @ ?r) = Some ds"
    by (rule search_number_found[OF assms no_digit_phrases(4)])
       (simp add: startswith_def is_space_def)
  from assms(1) t h d w m show ?thesis
    by (simp add: parse_relative_date_def patterns_def split: option.splits)
qed

subsection \<open>Date filter\<close>

lemma filter_posts_by_date_disabled:
  "filter_posts_by_date now f posts None = Inr posts"
  "d \<le> 0 \<Longrightarrow> filter_posts_by_date now f posts (Some d) = Inr posts"
  by (auto simp: filter_posts_by_date_def)

lemma filter_loop_naive:
  "\<forall>p \<in> set posts. naive_date p \<Longrightarrow>
     filter_loop f cutoff acc posts = Inr (acc @ filter (keeps f cutoff) posts)"
proof (induction posts arbitrary: acc)
  case Nil
  then show ?case by simp
next
  case (Cons p ps)
  then have ih: "filter_loop f cutoff a ps = Inr (a @ filter (keeps f cutoff) ps)" for a
    by simp
  from Cons.prems have n: "naive_date p" by simp
  show ?case
  proof (cases "get p ''date_posted''")
    case (PDate t)
    with n have z: "tzinfo t = None" by (simp add: naive_date_def)
    from PDate have k: "keeps f cutoff p = (cutoff \<le> to_micro t)" by (simp add: keeps_def)
    from PDate z ih show ?thesis by (simp add: k datetime_ge_def)
  next
    case (PStr s)
    show ?thesis
    proof (cases "f (replace_Z s)")
      case None
      with PStr have k: "keeps f cutoff p" by (simp add: keeps_def)
      from PStr None ih show ?thesis by (simp add: k)
    next
      case (Some t)
      with PStr have k: "keeps f cutoff p = (tzinfo t \<noteq> None \<or> cutoff \<le> to_micro t)"
        by (simp add: keeps_def)
      from PStr Some ih show ?thesis
        by (cases "tzinfo t") (simp_all add: k datetime_ge_def)
    qed
  next
    case PNone
    then have k: "keeps f cutoff p" by (simp add: keeps_def)
    from PNone ih show ?thesis by (simp add: k)
  next
    case (PInt i)
    then have k: "keeps f cutoff p" by (simp add: keeps_def)
    from PInt ih show ?thesis by (simp add: k)
  qed
qed

lemma filter_posts_by_date_naive:
  assumes "0 < d" and "cutoff_date now d = Inr cutoff" and "\<forall>p \<in> set posts. naive_date p"
  shows "filter_posts_by_date now f posts (Some d) = Inr (filter (keeps f cutoff) posts)"
  using assms filter_loop_naive[of posts f cutoff "[]"]
  by (simp add: filter_posts_by_date_def)

lemma cutoff_date_value:
  "cutoff_date now d = Inr cutoff \<Longrightarrow> cutoff = to_micro now - d * 86400000000"
  by (auto simp: cutoff_date_def Let_def split: if_splits)

text \<open>
  C2 fails where a timestamp is timezone-aware: the cutoff is naive, so the comparison
  raises \<^verbatim>\<open>TypeError\<close>. For a \<^verbatim>\<open>datetime\<close> value the exception leaves the
  filter; for a textual date it is swallowed and the post is kept however old it is.
  On naive timestamps the filter excludes exactly the posts before the cutoff.
\<close>

theorem filter_posts_by_date_aware_raises:
  "filter_posts_by_date (mk_datetime 2024 6 15 12 0 None) (\<lambda>s. None)
     [[(''post_url'', PStr ''https://www.linkedin.com/posts/1''),
       (''date_posted'', PDate (mk_datetime 2024 6 14 9 0 (Some 0)))]] (Some 7)
   = Inl TypeError
   \<and> filter_posts_by_date (mk_datetime 2024 6 15 12 0 None)
       (\<lambda>s. if s = ''2020-01-01T00:00:00+00:00'' then Some (mk_datetime 2020 1 1 0 0 (Some 0))
            else None)
     [[(''date_posted'', PStr ''2020-01-01T00:00:00Z'')]] (Some 7)
   = Inr [[(''date_posted'', PStr ''2020-01-01T00:00:00Z'')]]
   \<and> filter_posts_by_date (mk_datetime 2024 6 15 12 0 None) (\<lambda>s. None)
     [[(''date_posted'', PDate (mk_datetime 2024 6 1 9 0 None))],
      [(''date_posted'', PDate (mk_datetime 2024 6 14 9 0 None))]] (Some 7)
   = Inr [[(''date_posted'', PDate (mk_datetime 2024 6 14 9 0 None))]]"
  by code_simp

text \<open>One aware timestamp anywhere in the list makes the filter raise.\<close>

lemma filter_loop_aware:
  assumes "\<exists>p \<in> set posts. \<not> naive_date p"
  shows "filter_loop f cutoff acc posts = Inl TypeError"
  using assms
proof (induction posts arbitrary: acc)
  case Nil
  then show ?case by simp
next
  case (Cons p ps)
  show ?case
  proof (cases "naive_date p")
    case True
    with Cons.prems have "\<exists>q \<in> set ps. \<not> naive_date q" by auto
    then have ih: "filter_loop f cutoff a ps = Inl TypeError" for a by (rule Cons.IH)
    show ?thesis
    proof (cases "get p ''date_posted''")
      case (PDate t)
      with True have "tzinfo t = None" by (simp add: naive_date_def)
      with PDate ih show ?thesis by (simp add: datetime_ge_def)
    next
      case (PStr s)
      with ih show ?thesis by (simp add: datetime_ge_def split: option.splits sum.splits)
    qed (simp_all add: ih)
  next
    case False
    then obtain t off where "get p ''date_posted'' = PDate t" "tzinfo t = Some off"
      by (auto simp: naive_date_def split: pyval.splits)
    then show ?thesis by (simp add: datetime_ge_def)
  qed
qed

lemma filter_posts_by_date_aware:
  assumes "0 < d" and "cutoff_date now d = Inr cutoff" and "\<exists>p \<in> set posts. \<not> naive_date p"
  shows "filter_posts_by_date now f posts (Some d) = Inl TypeError"
  using assms filter_loop_aware[of posts f cutoff "[]"]
  by (simp add: filter_posts_by_date_def)

subsection \<open>Raw extraction adapters\<close>

lemma absolute_url_nonempty: "href \<noteq> [] \<Longrightarrow> absolute_url base href \<noteq> []"
  by (simp add: absolute_url_def)

lemma bs_post_url_nonempty: "bs_post_url n base = Some u \<Longrightarrow> u \<noteq> []"
  by (auto simp: bs_post_url_def absolute_url_nonempty split: option.splits if_splits)

lemma pw_post_url_nonempty: "pw_post_url e = Some u \<Longrightarrow> u \<noteq> []"
  by (auto simp: pw_post_url_def Let_def absolute_url_nonempty split: option.splits if_splits)

lemma parse_post_element_none:
  "parse_post_element now f (Node n) base = None
     \<longleftrightarrow> (bs_post_url n base = None \<or> bs_text n = [])"
proof (cases "bs_post_url n base")
  case None
  then show ?thesis by (simp add: parse_post_element_def Let_def)
next
  case (Some u)
  then have "u \<noteq> []" by (rule bs_post_url_nonempty)
  with Some show ?thesis by (simp add: parse_post_element_def Let_def)
qed

lemma parse_post_element_mapping: "parse_post_element now f (Mapping d) base = Some d"
  by (simp add: parse_post_element_def)

lemma sum_case_Some: "(case x of Inl e \<Rightarrow> Some a | Inr c \<Rightarrow> Some c) \<noteq> None"
  by (cases x) auto

lemma extract_single_post_none:
  "extract_single_post now f e = None \<longleftrightarrow> (pw_post_url e = None \<and> pw_text e = [])"
proof (cases "pw_post_url e")
  case None
  then show ?thesis
    by (cases "pw_text e = []") (simp_all add: extract_single_post_def Let_def sum_case_Some)
next
  case (Some u)
  then have "u \<noteq> []" by (rule pw_post_url_nonempty)
  with Some show ?thesis by (simp add: extract_single_post_def Let_def sum_case_Some)
qed

lemma hex_digit_set: "hex_digit n \<in> set ''0123456789abcdef''"
proof -
  have "nat (n mod 16) < length ''0123456789abcdef''" by simp
  then show ?thesis unfolding hex_digit_def by (rule nth_mem)
qed

lemma md5_hexdigest_hex: "set (md5_hexdigest s) \<subseteq> set ''0123456789abcdef''"
proof -
  define H where "H = set ''0123456789abcdef''"
  have d: "hex_digit n \<in> H" for n unfolding H_def by (rule hex_digit_set)
  have "set (hex_byte b) \<subseteq> H" for b using d by (simp add: hex_byte_def)
  then have "set (concat (map hex_byte bs)) \<subseteq> H" for bs by (induction bs) auto
  then show ?thesis unfolding md5_hexdigest_def H_def .
qed

lemma text_step_other:
  "text_step d = Inr d' \<Longrightarrow> k \<noteq> ''text'' \<Longrightarrow> k \<noteq> ''text_snippet'' \<Longrightarrow> map_of d' k = map_of d k"
  by (auto simp: text_step_def update_conv' split: option.splits sum.splits)

lemma url_step_absolute:
  "map_of d k = Some (PStr u) \<Longrightarrow> startswith u ''http'' \<Longrightarrow> url_step k d = Inr d"
  by (simp add: url_step_def)

lemma clean_dict_post_url:
  assumes "clean_dict now f d = Inr d'" and "map_of d ''post_url'' = Some (PStr u)"
    and "startswith u ''http''"
  shows "map_of d' ''post_url'' = Some (PStr u)"
proof -
  from assms(1) obtain d1 d2 d3 where s:
    "text_step d = Inr d1" "url_step ''post_url'' d1 = Inr d2"
    "url_step ''author_url'' d2 = Inr d3" "d' = date_step now f d3"
    by (auto simp: clean_dict_def split: sum.splits)
  from text_step_other[OF s(1), of "''post_url''"] assms(2)
  have 1: "map_of d1 ''post_url'' = Some (PStr u)" by simp
  with s(2) assms(3) have "d2 = d1" by (simp add: url_step_absolute)
  with 1 url_step_other[OF s(3), of "''post_url''"]
  have "map_of d3 ''post_url'' = Some (PStr u)" by simp
  with s(4) date_step_other[of "''post_url''" now f d3] show ?thesis by simp
qed

lemma extract_single_post_synthesized:
  assumes "pw_post_url e = None" and "pw_text e \<noteq> []"
  shows "\<exists>d. extract_single_post now f e = Some d
           \<and> get d ''post_url''
               = PStr (''https://www.linkedin.com/feed/post/'' @ take 12 (md5_hexdigest (pw_text e)))
           \<and> length (take 12 (md5_hexdigest (pw_text e))) = 12
           \<and> set (take 12 (md5_hexdigest (pw_text e))) \<subseteq> set ''0123456789abcdef''"
proof -
  let ?u = "''https://www.linkedin.com/feed/post/'' @ take 12 (md5_hexdigest (pw_text e))"
  have h: "startswith ?u ''http''" by (simp add: startswith_def)
  have l: "length (take 12 (md5_hexdigest (pw_text e))) = 12"
    by (simp add: md5_hexdigest_length)
  have x: "set (take 12 (md5_hexdigest (pw_text e))) \<subseteq> set ''0123456789abcdef''"
    using md5_hexdigest_hex[of "pw_text e"] set_take_subset[of 12 "md5_hexdigest (pw_text e)"]
    by blast
  let ?pd = "pw_post_data now f e ?u (pw_text e)"
  have m: "map_of ?pd ''post_url'' = Some (PStr ?u)" by (simp add: pw_post_data_def Let_def)
  from assms have r: "extract_single_post now f e =
      (case clean_dict now f ?pd of Inl e \<Rightarrow> Some ?pd | Inr c \<Rightarrow> Some c)"
    by (simp add: extract_single_post_def Let_def clean_value_dict cong: sum.case_cong)
  have "\<exists>d. extract_single_post now f e = Some d \<and> get d ''post_url'' = PStr ?u"
  proof (cases "clean_dict now f ?pd")
    case (Inl err)
    with r m show ?thesis by (simp add: get_def get_default_def)
  next
    case (Inr c)
    from clean_dict_post_url[OF Inr m h] r Inr show ?thesis
      by (simp add: get_def get_default_def)
  qed
  with l x show ?thesis by blast
qed

text \<open>
  C1 fails on \<^verbatim>\<open>parse_post_element\<close>: a markup node with body text and no permalink
  is dropped (the guard is \<^verbatim>\<open>not post_url or not text\<close>), where the claim keeps it
  with a synthesized \<^verbatim>\<open>post_url\<close>. The sibling \<^verbatim>\<open>_extract_single_post\<close> does what
  the claim says on the same evidence: it returns the record with the first 12
  hexadecimal characters of the MD5 digest of the text in a placeholder URL.
\<close>

theorem parse_post_element_drops_text_only:
  "parse_post_element (mk_datetime 2024 6 15 12 0 None) (\<lambda>s. None)
     (Node \<lparr>bs_post_link = None, bs_author_link = None,
            bs_description = Some ''We are hiring'', bs_ltr_span = None, bs_text_div = None,
            bs_time = None, bs_like_string = None, bs_comment_string = None\<rparr>)
     ''https://www.linkedin.com''
   = None
   \<and> extract_single_post (mk_datetime 2024 6 15 12 0 None) (\<lambda>s. None)
       \<lparr>pw_post_link = None, pw_author_link = None,
        pw_texts = [Some ''We are hiring'', None, None], pw_time = None, pw_likes = None,
        pw_comments = None, pw_any_link = None, pw_inner_text = None\<rparr>
   = Some [(''post_url'', PStr ''https://www.linkedin.com/feed/post/a4c8f677f527''),
           (''author_url'', PStr ''''), (''author_name'', PStr ''Unknown''),
           (''text'', PStr ''We are hiring''),
           (''date_posted'', PDate (mk_datetime 2024 6 15 12 0 None)),
           (''likes'', PInt 0), (''comments'', PInt 0),
           (''text_snippet'', PStr ''We are hiring'')]"
  by code_simp

end
